theory Spec2Isabelle
  imports Main "HOL-Library.Sublist" "HOL-Library.Char_ord" "HOL-Library.List_Lexorder"
    "HOL-Library.AList"
begin

section \<open>Standard library provisioning (go/private/actions/stdlib.bzl)\<close>

text \<open>
  The Starlark rule code builds a description of build actions. Its objects are
  modelled as records, the optional zipper executable as an option (Starlark tests
  it for truth), the environment dict as a map, an \<open>Args\<close> object as the list of
  the strings added to it, and the calls on \<open>go.actions\<close> as a log of actions,
  in the order in which they are issued.
\<close>

record File =
  path :: string
  dirname :: string

record GoMode =
  goos :: string
  goarch :: string
  race :: bool
  msan :: bool
  pure :: bool
  link :: string

record GoSDK =
  sdk_goos :: string
  sdk_goarch :: string
  sdk_root_file :: File
  sdk_libs :: "File list"
  sdk_srcs :: "File list"
  sdk_headers :: "File list"
  sdk_tools :: "File list"
  sdk_go :: File
  sdk_package_list :: File

record CgoTools =
  c_compiler_path :: string
  c_compile_options :: "string list"

record GoStdLib =
  root_file :: File
  libs :: "File list"

record RunAction =
  inputs :: "File list"
  outputs :: "File list"
  mnemonic :: string
  progress_message :: "string option"
  executable :: File
  arguments :: "string list"
  run_env :: "(string \<rightharpoonup> string) option"

datatype action = Write File string | Run RunAction

text \<open>
  The context object \<open>go\<close>. The helpers \<open>go.declare_directory\<close>,
  \<open>go.declare_file\<close>, \<open>go.builder_args\<close> and \<open>go.actions.declare_file\<close>
  are defined outside the files at hand; they are fields of the context, as
  they are in the source, and stay uninterpreted.
\<close>

record GoContext =
  mode :: GoMode
  sdk :: GoSDK
  zipper :: "File option"
  cgo_tools :: CgoTools
  crosstool :: "File list"
  env :: "string \<rightharpoonup> string"
  toolchain_builder :: File
  declare_directory :: "string \<Rightarrow> File"
  declare_file :: "string \<Rightarrow> File"
  builder_args :: "string \<Rightarrow> string list"
  actions_declare_file :: "string \<Rightarrow> File"

text \<open>
  Modelled from the spec: the constant \<open>LINKMODE_NORMAL\<close> is loaded from
  \<open>go/private/mode.bzl\<close>, which is not among the files; the spec names the
  link mode "normal".
\<close>

definition LINKMODE_NORMAL :: string where
  "LINKMODE_NORMAL = ''normal''"

definition should_use_sdk_stdlib :: "GoContext \<Rightarrow> bool" where
  "should_use_sdk_stdlib go =
     (goos (mode go) = sdk_goos (sdk go) \<and>
      goarch (mode go) = sdk_goarch (sdk go) \<and>
      \<not> race (mode go) \<and>
      \<not> msan (mode go) \<and>
      \<not> pure (mode go) \<and>
      link (mode go) = LINKMODE_NORMAL)"

definition sdk_stdlib :: "GoContext \<Rightarrow> GoStdLib" where
  "sdk_stdlib go = \<lparr>root_file = sdk_root_file (sdk go), libs = sdk_libs (sdk go)\<rparr>"

text \<open>Starlark's \<open>sep.join(xs)\<close>.\<close>

fun join :: "string \<Rightarrow> string list \<Rightarrow> string" where
  "join sep [] = []"
| "join sep [x] = x"
| "join sep (x # y # ys) = x @ sep @ join sep (y # ys)"

text \<open>The decimal numeral of a number, for \<open>"%s" % len(...)\<close>.\<close>

fun show_nat :: "nat \<Rightarrow> string" where
  "show_nat n =
     (if n < 10 then [''0123456789'' ! n]
      else show_nat (n div 10) @ [''0123456789'' ! (n mod 10)])"

declare show_nat.simps [simp del]

text \<open>
  \<open>_build_stdlib\<close>. The functions \<open>link_mode_args\<close> and
  \<open>extldflags_from_cc_toolchain\<close> are loaded from \<open>mode.bzl\<close> and are
  parameters here. The result is the \<open>GoStdLib\<close> provider and the actions
  issued; \<open>build_env\<close> is the dict \<open>go.env\<close> after its update, which the
  \<open>GoStdlib\<close> action receives.
\<close>

definition sdk_inputs_of :: "GoContext \<Rightarrow> File list" where
  "sdk_inputs_of go =
     sdk_srcs (sdk go) @ sdk_headers (sdk go) @ sdk_tools (sdk go) @
     [sdk_go (sdk go), sdk_root_file (sdk go)]"

definition build_env :: "(GoContext \<Rightarrow> string list) \<Rightarrow> GoContext \<Rightarrow> (string \<rightharpoonup> string)" where
  "build_env extldflags_from_cc_toolchain go =
     (if pure (mode go) then (env go)(''CGO_ENABLED'' \<mapsto> ''0'')
      else (env go)
        (''CGO_ENABLED'' \<mapsto> ''1'',
         ''CC'' \<mapsto> c_compiler_path (cgo_tools go),
         ''CGO_CFLAGS'' \<mapsto> join '' '' (c_compile_options (cgo_tools go)),
         ''CGO_LDFLAGS'' \<mapsto> join '' '' (extldflags_from_cc_toolchain go)))"

definition zip_arguments :: "GoContext \<Rightarrow> File \<Rightarrow> File list \<Rightarrow> string list" where
  "zip_arguments go sdkzip sdk_inputs =
     (let prefixlen = length (dirname (sdk_root_file (sdk go))) + 1
      in [''cC'', path sdkzip] @
         map (\<lambda>f. drop prefixlen (path f) @ ''='' @ path f) sdk_inputs)"

definition build_stdlib ::
  "(GoMode \<Rightarrow> string list) \<Rightarrow> (GoContext \<Rightarrow> string list) \<Rightarrow> GoContext \<Rightarrow>
   GoStdLib \<times> action list" where
  "build_stdlib link_mode_args extldflags_from_cc_toolchain go =
     (let pkg = declare_directory go ''pkg'';
          src = declare_directory go ''src'';
          root = declare_file go ''ROOT'';
          args = builder_args go ''stdlib'' @ [''-out'', dirname root];
          args = (if race (mode go) then args @ [''-race''] else args);
          args = args @ link_mode_args (mode go);
          acts = [Write root ''''];
          env' = build_env extldflags_from_cc_toolchain go;
          sdk_inputs = sdk_inputs_of go;
          (sdk_inputs, args, acts) =
            (case zipper go of
               None \<Rightarrow> (sdk_inputs, args, acts)
             | Some z \<Rightarrow>
                 (let sdkzip = actions_declare_file go ''sdk.zip'';
                      zipargs = zip_arguments go sdkzip sdk_inputs
                  in ([sdkzip],
                      args @ [''-sdkzip'', path sdkzip],
                      acts @ [Run \<lparr>inputs = sdk_inputs, outputs = [sdkzip],
                                mnemonic = ''GoStdlibZip'',
                                progress_message =
                                  Some (''Packaging '' @ show_nat (length sdk_inputs) @
                                        '' stdlib files''),
                                executable = z, arguments = zipargs,
                                run_env = None\<rparr>])));
          inputs' = sdk_inputs @ crosstool go @ [sdk_package_list (sdk go)];
          outputs' = [pkg, src]
      in (\<lparr>root_file = root, libs = [pkg]\<rparr>,
          acts @ [Run \<lparr>inputs = inputs', outputs = outputs', mnemonic = ''GoStdlib'',
                    progress_message = None,
                    executable = toolchain_builder go, arguments = args,
                    run_env = Some env'\<rparr>]))"

text \<open>\<open>_stdlib_library_to_source\<close>: the value stored in \<open>source["stdlib"]\<close>
  and the actions issued on the way.\<close>

definition stdlib_library_to_source ::
  "(GoMode \<Rightarrow> string list) \<Rightarrow> (GoContext \<Rightarrow> string list) \<Rightarrow> GoContext \<Rightarrow>
   GoStdLib \<times> action list" where
  "stdlib_library_to_source link_mode_args extldflags_from_cc_toolchain go =
     (if should_use_sdk_stdlib go then (sdk_stdlib go, [])
      else build_stdlib link_mode_args extldflags_from_cc_toolchain go)"

fun is_build_action :: "action \<Rightarrow> bool" where
  "is_build_action (Run r) = True"
| "is_build_action (Write f s) = False"

fun has_mnemonic :: "string \<Rightarrow> action \<Rightarrow> bool" where
  "has_mnemonic m (Run r) = (mnemonic r = m)"
| "has_mnemonic m (Write f s) = False"

text \<open>A concrete context, used to run the definitions.\<close>

definition file_at :: "string \<Rightarrow> string \<Rightarrow> File" where
  "file_at d n = \<lparr>path = d @ ''/'' @ n, dirname = d\<rparr>"

definition example_sdk :: GoSDK where
  "example_sdk =
     \<lparr>sdk_goos = ''linux'', sdk_goarch = ''amd64'',
      sdk_root_file = file_at ''external/go_sdk'' ''ROOT'',
      sdk_libs = [file_at ''external/go_sdk/pkg/linux_amd64'' ''fmt.a''],
      sdk_srcs = [file_at ''external/go_sdk/src/fmt'' ''print.go''],
      sdk_headers = [file_at ''external/go_sdk/pkg/include'' ''textflag.h''],
      sdk_tools = [file_at ''external/go_sdk/pkg/tool/linux_amd64'' ''compile''],
      sdk_go = file_at ''external/go_sdk/bin'' ''go'',
      sdk_package_list = file_at ''external/go_sdk'' ''packages.txt''\<rparr>"

definition example_mode :: GoMode where
  "example_mode =
     \<lparr>goos = ''linux'', goarch = ''amd64'', race = False, msan = False, pure = False,
      link = ''normal''\<rparr>"

definition example_go :: GoContext where
  "example_go =
     \<lparr>mode = example_mode, sdk = example_sdk, zipper = None,
      cgo_tools = \<lparr>c_compiler_path = ''/usr/bin/gcc'', c_compile_options = [''-O2'', ''-g'']\<rparr>,
      crosstool = [file_at ''external/cc'' ''gcc''],
      env = Map.empty,
      toolchain_builder = file_at ''bin'' ''builder'',
      declare_directory = (\<lambda>p. file_at ''bazel-out/stdlib'' p),
      declare_file = (\<lambda>p. file_at ''bazel-out/stdlib'' p),
      builder_args = (\<lambda>c. [c]),
      actions_declare_file = (\<lambda>p. file_at ''bazel-out'' p)\<rparr>"

section \<open>Flags of the environment layer (go/tools/builders/env.go)\<close>

record Env =
  env_sdk :: string
  env_sdkzip :: string
  installSuffix :: string
  verbose :: bool
  workDirPath :: string
  shouldPreserveWorkDir :: bool

text \<open>\<open>envFlags\<close> registers the flags with their defaults: the value of an
  \<open>env\<close> on which no flag was given.\<close>

definition envFlags :: Env where
  "envFlags =
     \<lparr>env_sdk = '''', env_sdkzip = '''', installSuffix = '''', verbose = False,
      workDirPath = '''', shouldPreserveWorkDir = False\<rparr>"

text \<open>\<open>checkFlags\<close>: \<open>None\<close> is Go's \<open>nil\<close> error.\<close>

definition checkFlags :: "Env \<Rightarrow> string option" where
  "checkFlags e = (if env_sdk e = '''' then Some ''-sdk was not set'' else None)"

section \<open>Strings and lexical paths (Go's strings and path/filepath, Unix)\<close>

definition strings_HasPrefix :: "string \<Rightarrow> string \<Rightarrow> bool" where
  "strings_HasPrefix s pre = prefix pre s"

fun split_on :: "char \<Rightarrow> string \<Rightarrow> string list" where
  "split_on sep [] = [[]]"
| "split_on sep (c # cs) =
     (if c = sep then [] # split_on sep cs
      else (case split_on sep cs of [] \<Rightarrow> [[c]] | x # xs \<Rightarrow> (c # x) # xs))"

fun clean_elems :: "bool \<Rightarrow> string list \<Rightarrow> string list \<Rightarrow> string list" where
  "clean_elems rooted out [] = rev out"
| "clean_elems rooted out (e # es) =
     (if e = [] \<or> e = ''.'' then clean_elems rooted out es
      else if e = ''..'' then
        (case out of
           [] \<Rightarrow> if rooted then clean_elems rooted [] es else clean_elems rooted [e] es
         | x # out' \<Rightarrow>
             if x = ''..'' then clean_elems rooted (e # out) es
             else clean_elems rooted out' es)
      else clean_elems rooted (e # out) es)"

definition filepath_IsAbs :: "string \<Rightarrow> bool" where
  "filepath_IsAbs p = strings_HasPrefix p ''/''"

definition filepath_Clean :: "string \<Rightarrow> string" where
  "filepath_Clean p =
     (let rooted = filepath_IsAbs p;
          elems = clean_elems rooted [] (split_on (CHR ''/'') p)
      in if rooted then CHR ''/'' # join ''/'' elems
         else if elems = [] then ''.''
         else join ''/'' elems)"

definition filepath_Join :: "string \<Rightarrow> string \<Rightarrow> string" where
  "filepath_Join a b =
     (if a \<noteq> [] then filepath_Clean (a @ ''/'' @ b)
      else if b \<noteq> [] then filepath_Clean b
      else [])"

definition filepath_Dir :: "string \<Rightarrow> string" where
  "filepath_Dir p = filepath_Clean (rev (dropWhile (\<lambda>c. c \<noteq> CHR ''/'') (rev p)))"


text \<open>The resolution of a path string by the operating system: the names from the
  root down. The working directory of the process is taken to be the root, so that a
  relative path and the same path with a leading slash name the same entry.\<close>

definition path_elems :: "string \<Rightarrow> string list" where
  "path_elems p = clean_elems True [] (split_on (CHR ''/'') p)"

section \<open>The file system\<close>

datatype error =
    ENOENT | EEXIST | ENOTDIR | EISDIR | ENOTEMPTY | EINVAL | ELOOP | EPERM
  | ErrorString string
  | Errorf string string error
  | Panic string

datatype node = RegularFile string nat | Directory | SymbolicLink string

type_synonym filesystem = "(string list \<times> node) list"

definition fs_get :: "filesystem \<Rightarrow> string list \<Rightarrow> node option" where
  "fs_get fs p = (if p = [] then Some Directory else map_of fs p)"

definition fs_put :: "string list \<Rightarrow> node \<Rightarrow> filesystem \<Rightarrow> filesystem" where
  "fs_put p n fs = AList.update p n fs"

definition fs_children :: "filesystem \<Rightarrow> string list \<Rightarrow> string list" where
  "fs_children fs p = [last q. (q, n) \<leftarrow> fs, q \<noteq> [] \<and> butlast q = p]"

text \<open>The checks every system call makes on the directory that is to hold an entry.\<close>

definition parent_error :: "filesystem \<Rightarrow> string list \<Rightarrow> error option" where
  "parent_error fs p =
     (case fs_get fs (butlast p) of
        None \<Rightarrow> Some ENOENT
      | Some Directory \<Rightarrow> None
      | Some _ \<Rightarrow> Some ENOTDIR)"

definition os_Mkdir :: "string \<Rightarrow> filesystem \<Rightarrow> error option \<times> filesystem" where
  "os_Mkdir name fs =
     (let p = path_elems name
      in if name = [] then (Some ENOENT, fs)
         else if fs_get fs p \<noteq> None then (Some EEXIST, fs)
         else (case parent_error fs p of
                 Some e \<Rightarrow> (Some e, fs)
               | None \<Rightarrow> (None, fs_put p Directory fs)))"

text \<open>\<open>os.MkdirAll\<close>: nothing to do for a directory, \<open>ENOTDIR\<close> for another
  entry, and otherwise the parent first and then the directory itself; the recursion
  runs over the path from its last name upwards.\<close>

fun mkdir_all :: "string list \<Rightarrow> filesystem \<Rightarrow> error option \<times> filesystem" where
  "mkdir_all [] fs = (None, fs)"
| "mkdir_all (c # rp) fs =
     (case fs_get fs (rev (c # rp)) of
        Some Directory \<Rightarrow> (None, fs)
      | Some _ \<Rightarrow> (Some ENOTDIR, fs)
      | None \<Rightarrow>
          (case mkdir_all rp fs of
             (Some e, fs') \<Rightarrow> (Some e, fs')
           | (None, fs') \<Rightarrow> (None, fs_put (rev (c # rp)) Directory fs')))"

definition os_MkdirAll :: "string \<Rightarrow> filesystem \<Rightarrow> error option \<times> filesystem" where
  "os_MkdirAll name fs =
     (if name = [] then (Some ENOENT, fs) else mkdir_all (rev (path_elems name)) fs)"

text \<open>\<open>os.Remove\<close>: a file, a link or an empty directory.\<close>

definition os_Remove :: "string \<Rightarrow> filesystem \<Rightarrow> error option \<times> filesystem" where
  "os_Remove name fs =
     (let p = path_elems name
      in if name = [] then (Some ENOENT, fs)
         else if p = [] then (Some EINVAL, fs)
         else (case fs_get fs p of
                 None \<Rightarrow> (Some ENOENT, fs)
               | Some Directory \<Rightarrow>
                   if fs_children fs p = [] then (None, AList.delete p fs)
                   else (Some ENOTEMPTY, fs)
               | Some _ \<Rightarrow> (None, AList.delete p fs)))"

text \<open>\<open>os.RemoveAll\<close>: the entry and everything below it; no error when there
  is nothing at the path.\<close>

definition os_RemoveAll :: "string \<Rightarrow> filesystem \<Rightarrow> error option \<times> filesystem" where
  "os_RemoveAll name fs =
     (let p = path_elems name
      in if name = [] then (None, fs)
         else if p = [] then (Some EINVAL, fs)
         else (None, filter (\<lambda>(q, n). \<not> prefix p q) fs))"

text \<open>\<open>os.Create\<close> (create or truncate, mode 0666), the write of the whole
  contents that \<open>io.Copy\<close> and \<open>Close\<close> make, and \<open>os.Chmod\<close>.\<close>

definition os_Create :: "string \<Rightarrow> filesystem \<Rightarrow> error option \<times> filesystem" where
  "os_Create name fs =
     (let p = path_elems name
      in if name = [] then (Some ENOENT, fs)
         else (case fs_get fs p of
                 Some Directory \<Rightarrow> (Some EISDIR, fs)
               | Some (SymbolicLink t) \<Rightarrow> (Some ELOOP, fs)
               | Some (RegularFile c m) \<Rightarrow> (None, fs_put p (RegularFile [] m) fs)
               | None \<Rightarrow>
                   (case parent_error fs p of
                      Some e \<Rightarrow> (Some e, fs)
                    | None \<Rightarrow> (None, fs_put p (RegularFile [] 438) fs))))"

definition write_contents :: "string \<Rightarrow> string \<Rightarrow> filesystem \<Rightarrow> filesystem" where
  "write_contents name data fs =
     (case fs_get fs (path_elems name) of
        Some (RegularFile c m) \<Rightarrow> fs_put (path_elems name) (RegularFile data m) fs
      | _ \<Rightarrow> fs)"

definition os_Chmod :: "string \<Rightarrow> nat \<Rightarrow> filesystem \<Rightarrow> error option \<times> filesystem" where
  "os_Chmod name m fs =
     (case fs_get fs (path_elems name) of
        None \<Rightarrow> (Some ENOENT, fs)
      | Some (RegularFile c m') \<Rightarrow> (None, fs_put (path_elems name) (RegularFile c m) fs)
      | Some _ \<Rightarrow> (None, fs))"


text \<open>Following symbolic links, as \<open>os.Stat\<close> and \<open>filepath.EvalSymlinks\<close>
  do; at most 255 links are followed.\<close>

fun walk_links :: "nat \<Rightarrow> filesystem \<Rightarrow> string list \<Rightarrow> string list \<Rightarrow> error + string list" where
  "walk_links n fs cur [] = Inr cur"
| "walk_links n fs cur (e # es) =
     (if e = [] \<or> e = ''.'' then walk_links n fs cur es
      else if e = ''..'' then walk_links n fs (butlast cur) es
      else (case fs_get fs (cur @ [e]) of
              None \<Rightarrow> Inl ENOENT
            | Some Directory \<Rightarrow> walk_links n fs (cur @ [e]) es
            | Some (RegularFile c m) \<Rightarrow> if es = [] then Inr (cur @ [e]) else Inl ENOTDIR
            | Some (SymbolicLink t) \<Rightarrow>
                (case n of
                   0 \<Rightarrow> Inl ELOOP
                 | Suc k \<Rightarrow>
                     walk_links k fs (if filepath_IsAbs t then [] else cur)
                       (split_on (CHR ''/'') t @ es))))"

definition fs_stat :: "string \<Rightarrow> filesystem \<Rightarrow> error + node" where
  "fs_stat name fs =
     (if name = [] then Inl ENOENT
      else (case walk_links 255 fs [] (split_on (CHR ''/'') name) of
              Inl e \<Rightarrow> Inl e
            | Inr p \<Rightarrow> (case fs_get fs p of None \<Rightarrow> Inl ENOENT | Some n \<Rightarrow> Inr n)))"

definition ioutil_ReadFile :: "string \<Rightarrow> filesystem \<Rightarrow> error + string" where
  "ioutil_ReadFile name fs =
     (case fs_stat name fs of
        Inl e \<Rightarrow> Inl e
      | Inr (RegularFile c m) \<Rightarrow> Inr c
      | Inr _ \<Rightarrow> Inl EISDIR)"

section \<open>Parameter files and absolute paths (go/tools/builders/env.go)\<close>

text \<open>\<open>readParamsFiles\<close>: the first loop collects the indices of the
  \<open>-param=\<close> arguments, the second walks over them with \<open>last\<close>, the index after
  the parameter argument handled before.\<close>

definition paramsIndices :: "string list \<Rightarrow> nat list" where
  "paramsIndices args = [i \<leftarrow> [0 ..< length args]. strings_HasPrefix (args ! i) ''-param='']"

fun expandParams ::
  "filesystem \<Rightarrow> string list \<Rightarrow> nat list \<Rightarrow> nat \<Rightarrow> string list \<Rightarrow> error + string list" where
  "expandParams fs args [] last' expandedArgs = Inr (expandedArgs @ drop last' args)"
| "expandParams fs args (pi # pis) last' expandedArgs =
     (let expandedArgs = expandedArgs @ take (pi - last') (drop last' args);
          fileName = drop (length ''-param='') (args ! pi)
      in case ioutil_ReadFile fileName fs of
           Inl err \<Rightarrow> Inl err
         | Inr content \<Rightarrow>
             (let fileArgs = split_on (CHR 0x0A) content
              in if fileArgs = [] then Inl (Panic ''index out of range'')
                 else
                   (let fileArgs =
                          (if fileArgs ! (length fileArgs - 1) = []
                           then take (length fileArgs - 1) fileArgs else fileArgs)
                    in expandParams fs args pis (pi + 1) (expandedArgs @ fileArgs))))"

definition readParamsFiles :: "filesystem \<Rightarrow> string list \<Rightarrow> error + string list" where
  "readParamsFiles fs args =
     (let ps = paramsIndices args
      in if length ps = 0 then Inr args else expandParams fs args ps 0 [])"

text \<open>\<open>filepath.Abs\<close>; the result of \<open>os.Getwd\<close> is a parameter.\<close>

definition filepath_Abs :: "error + string \<Rightarrow> string \<Rightarrow> error + string" where
  "filepath_Abs getwd p =
     (if filepath_IsAbs p then Inr (filepath_Clean p)
      else (case getwd of Inl e \<Rightarrow> Inl e | Inr wd \<Rightarrow> Inr (filepath_Join wd p)))"

definition abs' :: "error + string \<Rightarrow> string \<Rightarrow> string" where
  "abs' getwd p =
     (if strings_HasPrefix p ''__BAZEL_'' then p
      else (case filepath_Abs getwd p of Inl err \<Rightarrow> p | Inr a \<Rightarrow> a))"

text \<open>The inner loop of \<open>absArgs\<close> over the flags, for the argument \<open>a\<close>: the new
  value of the argument and of \<open>absNext\<close>.\<close>

fun absArg :: "error + string \<Rightarrow> string \<Rightarrow> string list \<Rightarrow> string \<times> bool" where
  "absArg getwd a [] = (a, False)"
| "absArg getwd a (f # flags) =
     (if \<not> strings_HasPrefix a f then absArg getwd a flags
      else
        (let possibleValue = drop (length f) a
         in if length possibleValue = 0 then (a, True)
            else
              (let (possibleValue, separator) =
                     (if possibleValue ! 0 = CHR ''='' then (drop 1 possibleValue, ''='')
                      else (possibleValue, ''''))
               in (f @ separator @ abs' getwd possibleValue, False))))"

function absArgs_from ::
  "error + string \<Rightarrow> string list \<Rightarrow> nat \<Rightarrow> bool \<Rightarrow> string list \<Rightarrow> string list" where
  "absArgs_from getwd flags i absNext args =
     (if i \<ge> length args then args
      else if absNext then
        absArgs_from getwd flags (i + 1) False (args[i := abs' getwd (args ! i)])
      else
        (let (v, n) = absArg getwd (args ! i) flags
         in absArgs_from getwd flags (i + 1) n (args[i := v])))"
  by pat_completeness auto
termination
  by (relation "measure (\<lambda>(getwd, flags, i, absNext, args). length args - i)") auto

declare absArgs_from.simps [simp del]

definition absArgs :: "error + string \<Rightarrow> string list \<Rightarrow> string list \<Rightarrow> string list" where
  "absArgs getwd args flags = absArgs_from getwd flags 0 False args"

text \<open>The statement of parameter file expansion: the lines of a file, separated by
  newlines, without a final empty line; and the contents of a file that can be read.\<close>

definition file_lines :: "string \<Rightarrow> string list" where
  "file_lines content =
     (let ls = split_on (CHR 0x0A) content in if last ls = [] then butlast ls else ls)"

definition file_contents :: "filesystem \<Rightarrow> string \<Rightarrow> string" where
  "file_contents fs name = (case ioutil_ReadFile name fs of Inr c \<Rightarrow> c | Inl e \<Rightarrow> [])"

text \<open>The statement of path absolutization, by recursion over the arguments: a token
  that no flag is a prefix of stays; a token that is a flag stays and the token after it
  is a path value; any other token is the first flag that is a prefix of it and, after
  an optional \<open>=\<close>, a path value. Path values are replaced by \<open>abs\<close> of them.\<close>

fun absolutized :: "error + string \<Rightarrow> string list \<Rightarrow> string list \<Rightarrow> string list" where
  "absolutized getwd flags [] = []"
| "absolutized getwd flags (a # rest) =
     (case find (\<lambda>f. prefix f a) flags of
        None \<Rightarrow> a # absolutized getwd flags rest
      | Some f \<Rightarrow>
          if a = f then
            (case rest of
               [] \<Rightarrow> [a]
             | v # rest' \<Rightarrow> a # abs' getwd v # absolutized getwd flags rest')
          else if prefix (f @ ''='') a then
            (f @ ''='' @ abs' getwd (drop (length f + 1) a)) # absolutized getwd flags rest
          else (f @ abs' getwd (drop (length f) a)) # absolutized getwd flags rest)"


section \<open>The work directory (go/tools/builders/env.go)\<close>

text \<open>\<open>ioutil.TempDir\<close> tries the names \<open>prefix + suffix\<close> for the random
  suffixes its generator yields, one after another, until \<open>os.Mkdir\<close> does not
  answer that the name exists. The suffixes (at most 10000 in the library) and the
  default directory \<open>os.TempDir()\<close> are parameters.\<close>

fun TempDir_try ::
  "string \<Rightarrow> string \<Rightarrow> string list \<Rightarrow> filesystem \<Rightarrow> (error + string) \<times> filesystem" where
  "TempDir_try dir pre [] fs = (Inl EEXIST, fs)"
| "TempDir_try dir pre (r # rs) fs =
     (let try = filepath_Join dir (pre @ r)
      in case os_Mkdir try fs of
           (None, fs') \<Rightarrow> (Inr try, fs')
         | (Some EEXIST, fs') \<Rightarrow> TempDir_try dir pre rs fs
         | (Some e, fs') \<Rightarrow> (Inl e, fs))"

definition ioutil_TempDir ::
  "string \<Rightarrow> string list \<Rightarrow> string \<Rightarrow> string \<Rightarrow> filesystem \<Rightarrow>
   (error + string) \<times> filesystem" where
  "ioutil_TempDir os_TempDir rands dir pre fs =
     TempDir_try (if dir = [] then os_TempDir else dir) pre rands fs"

text \<open>The two closures that \<open>workDir\<close> returns as \<open>cleanup\<close>. The second one
  reads \<open>e.workDirPath\<close> when it is called.\<close>

datatype cleanup = DoNothing | RemoveWorkDir

fun run_cleanup :: "cleanup \<Rightarrow> Env \<Rightarrow> filesystem \<Rightarrow> filesystem" where
  "run_cleanup DoNothing e fs = fs"
| "run_cleanup RemoveWorkDir e fs = snd (os_RemoveAll (workDirPath e) fs)"

text \<open>\<open>workDir\<close>: the values returned, and the \<open>env\<close> and the file system
  afterwards. The line printed in verbose mode is left out.\<close>

definition workDir ::
  "string \<Rightarrow> string list \<Rightarrow> Env \<Rightarrow> filesystem \<Rightarrow>
   (string \<times> cleanup \<times> error option) \<times> Env \<times> filesystem" where
  "workDir os_TempDir rands e fs =
     (if workDirPath e \<noteq> [] then ((workDirPath e, DoNothing, None), e, fs)
      else
        (case ioutil_TempDir os_TempDir rands [] ''rules_go_work-'' fs of
           (Inl err, fs') \<Rightarrow> (([], DoNothing, Some err), e\<lparr>workDirPath := []\<rparr>, fs')
         | (Inr p, fs') \<Rightarrow>
             (let e' = e\<lparr>workDirPath := p\<rparr>
              in ((p, if shouldPreserveWorkDir e' then DoNothing else RemoveWorkDir, None),
                  e', fs'))))"

definition example_tmp :: filesystem where
  "example_tmp =
     [([''tmp''], Directory), ([''tmp'', ''rules_go_work-123''], Directory),
      ([''tmp'', ''rules_go_work-123'', ''old.o''], RegularFile ''x'' 420)]"

text \<open>Two calls in a row on a context that does not preserve the work directory.\<close>

definition first_call :: "(string \<times> cleanup \<times> error option) \<times> Env \<times> filesystem" where
  "first_call = workDir ''/tmp'' [''123'', ''456''] envFlags example_tmp"

definition second_call :: "(string \<times> cleanup \<times> error option) \<times> Env \<times> filesystem" where
  "second_call = workDir ''/tmp'' [''123'', ''456''] (fst (snd first_call)) (snd (snd first_call))"

section \<open>The replication engine (go/tools/builders/replicate'.go)\<close>

record FileInfo =
  IsDir :: bool
  Mode :: nat

fun node_info :: "node \<Rightarrow> FileInfo" where
  "node_info (RegularFile c m) = \<lparr>IsDir = False, Mode = m\<rparr>"
| "node_info Directory = \<lparr>IsDir = True, Mode = 493\<rparr>"
| "node_info (SymbolicLink t) = \<lparr>IsDir = False, Mode = 511\<rparr>"

definition os_Stat :: "string \<Rightarrow> filesystem \<Rightarrow> error + FileInfo" where
  "os_Stat name fs = map_sum id node_info (fs_stat name fs)"

definition os_Lstat :: "string \<Rightarrow> filesystem \<Rightarrow> error + FileInfo" where
  "os_Lstat name fs =
     (if name = [] then Inl ENOENT
      else (case fs_get fs (path_elems name) of None \<Rightarrow> Inl ENOENT | Some n \<Rightarrow> Inr (node_info n)))"

text \<open>\<open>os.Open\<close> gives a reader, which is what reading it to the end yields: the
  contents, or the error of reading a directory.\<close>

definition os_Open :: "string \<Rightarrow> filesystem \<Rightarrow> error + (error + string)" where
  "os_Open name fs =
     (case fs_stat name fs of
        Inl e \<Rightarrow> Inl e
      | Inr (RegularFile c m) \<Rightarrow> Inr (Inr c)
      | Inr _ \<Rightarrow> Inr (Inl EISDIR))"

text \<open>\<open>os.Link\<close> and \<open>os.Symlink\<close>. A hard link is a second entry with the
  contents and mode of the first.\<close>

definition os_Link :: "string \<Rightarrow> string \<Rightarrow> filesystem \<Rightarrow> error option \<times> filesystem" where
  "os_Link oldname newname fs =
     (if oldname = [] \<or> newname = [] then (Some ENOENT, fs)
      else (case fs_get fs (path_elems oldname) of
              None \<Rightarrow> (Some ENOENT, fs)
            | Some Directory \<Rightarrow> (Some EPERM, fs)
            | Some n \<Rightarrow>
                if fs_get fs (path_elems newname) \<noteq> None then (Some EEXIST, fs)
                else (case parent_error fs (path_elems newname) of
                        Some e \<Rightarrow> (Some e, fs)
                      | None \<Rightarrow> (None, fs_put (path_elems newname) n fs))))"

definition os_Symlink :: "string \<Rightarrow> string \<Rightarrow> filesystem \<Rightarrow> error option \<times> filesystem" where
  "os_Symlink oldname newname fs =
     (if newname = [] then (Some ENOENT, fs)
      else if fs_get fs (path_elems newname) \<noteq> None then (Some EEXIST, fs)
      else (case parent_error fs (path_elems newname) of
              Some e \<Rightarrow> (Some e, fs)
            | None \<Rightarrow> (None, fs_put (path_elems newname) (SymbolicLink oldname) fs)))"

definition filepath_EvalSymlinks :: "string \<Rightarrow> filesystem \<Rightarrow> error + string" where
  "filepath_EvalSymlinks name fs =
     (case walk_links 255 fs [] (split_on (CHR ''/'') name) of
        Inl e \<Rightarrow> Inl e
      | Inr p \<Rightarrow>
          if p = path_elems name then Inr (filepath_Clean name)
          else Inr (CHR ''/'' # join ''/'' p))"

text \<open>\<open>filepath.Rel\<close>, on the elements of the two cleaned paths.\<close>

fun strip_common :: "string list \<Rightarrow> string list \<Rightarrow> string list \<times> string list" where
  "strip_common (b # bs) (t # ts) = (if b = t then strip_common bs ts else (b # bs, t # ts))"
| "strip_common bs ts = (bs, ts)"

definition filepath_Rel :: "string \<Rightarrow> string \<Rightarrow> error + string" where
  "filepath_Rel basepath targpath =
     (let base = filepath_Clean basepath; targ = filepath_Clean targpath
      in if targ = base then Inr ''.''
         else if filepath_IsAbs base \<noteq> filepath_IsAbs targ
         then Inl (ErrorString (''Rel: can't make '' @ targpath @ '' relative to '' @ basepath))
         else
           (let (bs, ts) =
                  strip_common (clean_elems (filepath_IsAbs base) [] (split_on (CHR ''/'') base))
                               (clean_elems (filepath_IsAbs targ) [] (split_on (CHR ''/'') targ))
            in if bs \<noteq> [] \<and> hd bs = ''..''
               then Inl (ErrorString (''Rel: can't make '' @ targpath @ '' relative to '' @ basepath))
               else Inr (join ''/'' (map (\<lambda>b. ''..'') bs @ ts))))"

datatype replicateMode = copyMode | hardlinkMode | softlinkMode | otherMode nat

record replicateConfig =
  removeFirst :: bool
  fileMode :: replicateMode
  dirMode :: replicateMode
  paths :: "string list"
  zip' :: string

datatype replicateOption = replicatePaths "string list" | replicateFromZip string

fun apply_option :: "replicateOption \<Rightarrow> replicateConfig \<Rightarrow> replicateConfig" where
  "apply_option (replicatePaths ps) config = config\<lparr>paths := paths config @ ps\<rparr>"
| "apply_option (replicateFromZip z) config = config\<lparr>zip' := z\<rparr>"

definition replicatePrepare ::
  "string \<Rightarrow> replicateConfig \<Rightarrow> filesystem \<Rightarrow> error option \<times> filesystem" where
  "replicatePrepare dst config fs =
     (let dir = filepath_Dir dst
      in case os_MkdirAll dir fs of
           (Some err, fs') \<Rightarrow> (Some (Errorf ''Failed to make %s: %v'' dir err), fs')
         | (None, fs') \<Rightarrow>
             (None, if removeFirst config then snd (os_Remove dst fs') else fs'))"

definition createFile ::
  "error + string \<Rightarrow> FileInfo \<Rightarrow> string \<Rightarrow> filesystem \<Rightarrow> error option \<times> filesystem" where
  "createFile in' stat dst fs =
     (case os_Create dst fs of
        (Some err, fs') \<Rightarrow> (Some err, fs')
      | (None, fs') \<Rightarrow>
          (case in' of
             Inl err \<Rightarrow> (Some err, fs')
           | Inr data \<Rightarrow> os_Chmod dst (Mode stat) (write_contents dst data fs')))"

definition replicateFile ::
  "string \<Rightarrow> string \<Rightarrow> replicateConfig \<Rightarrow> filesystem \<Rightarrow> error option \<times> filesystem" where
  "replicateFile src dst config fs =
     (case replicatePrepare dst config fs of
        (Some err, fs') \<Rightarrow> (Some err, fs')
      | (None, fs') \<Rightarrow>
          (case fileMode config of
             copyMode \<Rightarrow>
               (case os_Stat src fs' of
                  Inl err \<Rightarrow> (Some err, fs')
                | Inr s \<Rightarrow>
                    (case os_Open src fs' of
                       Inl err \<Rightarrow> (Some err, fs')
                     | Inr in' \<Rightarrow> createFile in' s dst fs'))
           | hardlinkMode \<Rightarrow> os_Link src dst fs'
           | softlinkMode \<Rightarrow> os_Symlink src dst fs'
           | otherMode n \<Rightarrow>
               (Some (ErrorString (''Invalid replication mode '' @ show_nat n)), fs')))"

text \<open>The replication of a file system tree takes \<open>Walk\<close>, whose depth is
  bounded in the model by a number \<open>n\<close>; the functions that call it hand the
  bound on and return \<open>None\<close> when it was reached.\<close>

text \<open>\<open>filepath.Walk\<close>: the names of a directory are read (and sorted) when the
  directory is entered, each entry is looked at when its turn comes. The function
  called back may change the file system, so the recursion is not over a fixed tree:
  it is bounded by the depth \<open>n\<close>, and \<open>None\<close> says that the bound was reached.
  The function called back by \<open>replicateDir\<close> never returns \<open>SkipDir\<close>.\<close>

type_synonym WalkFunc =
  "string \<Rightarrow> FileInfo option \<Rightarrow> error option \<Rightarrow> filesystem \<Rightarrow> error option \<times> filesystem"

definition readDirNames :: "string \<Rightarrow> filesystem \<Rightarrow> string list" where
  "readDirNames dirname' fs = sort (remdups (fs_children fs (path_elems dirname')))"

fun walk ::
    "nat \<Rightarrow> string \<Rightarrow> FileInfo \<Rightarrow> WalkFunc \<Rightarrow> filesystem \<Rightarrow>
     (error option \<times> filesystem) option"
  and walk_names ::
    "nat \<Rightarrow> string \<Rightarrow> string list \<Rightarrow> WalkFunc \<Rightarrow> filesystem \<Rightarrow>
     (error option \<times> filesystem) option" where
  "walk 0 path' info walkFn fs = None"
| "walk (Suc n) path' info walkFn fs =
     (if \<not> IsDir info then Some (walkFn path' (Some info) None fs)
      else
        (let names = readDirNames path' fs
         in case walkFn path' (Some info) None fs of
              (Some err1, fs') \<Rightarrow> Some (Some err1, fs')
            | (None, fs') \<Rightarrow> walk_names n path' names walkFn fs'))"
| "walk_names n path' [] walkFn fs = Some (None, fs)"
| "walk_names n path' (name # names) walkFn fs =
     (let filename = filepath_Join path' name
      in case os_Lstat filename fs of
           Inl err \<Rightarrow>
             (case walkFn filename None (Some err) fs of
                (Some err', fs') \<Rightarrow> Some (Some err', fs')
              | (None, fs') \<Rightarrow> walk_names n path' names walkFn fs')
         | Inr fileInfo \<Rightarrow>
             (case walk n filename fileInfo walkFn fs of
                None \<Rightarrow> None
              | Some (Some err, fs') \<Rightarrow> Some (Some err, fs')
              | Some (None, fs') \<Rightarrow> walk_names n path' names walkFn fs'))"

definition filepath_Walk ::
  "nat \<Rightarrow> string \<Rightarrow> WalkFunc \<Rightarrow> filesystem \<Rightarrow> (error option \<times> filesystem) option" where
  "filepath_Walk n root walkFn fs =
     (case os_Lstat root fs of
        Inl err \<Rightarrow> Some (walkFn root None (Some err) fs)
      | Inr info \<Rightarrow> walk n root info walkFn fs)"

text \<open>The function literal that \<open>replicateDir\<close> hands to \<open>Walk\<close>. It calls
  \<open>f.IsDir()\<close> first, which panics when \<open>f\<close> is \<open>nil\<close>.\<close>

definition replicateDir_walkFn :: "string \<Rightarrow> string \<Rightarrow> replicateConfig \<Rightarrow> WalkFunc" where
  "replicateDir_walkFn src dst config path' f err fs =
     (case f of
        None \<Rightarrow> (Some (Panic ''nil pointer dereference''), fs)
      | Some info \<Rightarrow>
          if IsDir info then (None, fs)
          else (case filepath_Rel src path' of
                  Inl err \<Rightarrow> (Some err, fs)
                | Inr relative \<Rightarrow> replicateFile path' (filepath_Join dst relative) config fs))"

definition replicateDir ::
  "nat \<Rightarrow> string \<Rightarrow> string \<Rightarrow> replicateConfig \<Rightarrow> filesystem \<Rightarrow>
   (error option \<times> filesystem) option" where
  "replicateDir n src dst config fs =
     (case replicatePrepare dst config fs of
        (Some err, fs') \<Rightarrow> Some (Some err, fs')
      | (None, fs') \<Rightarrow>
          (case dirMode config of
             copyMode \<Rightarrow> filepath_Walk n src (replicateDir_walkFn src dst config) fs'
           | hardlinkMode \<Rightarrow> Some (os_Link src dst fs')
           | softlinkMode \<Rightarrow> Some (os_Symlink src dst fs')
           | otherMode k \<Rightarrow>
               Some (Some (ErrorString (''Invalid replication mode '' @
                       (case fileMode config of copyMode \<Rightarrow> ''0'' | hardlinkMode \<Rightarrow> ''1''
                        | softlinkMode \<Rightarrow> ''2'' | otherMode j \<Rightarrow> show_nat j))), fs')))"

definition replicateTree ::
  "nat \<Rightarrow> string \<Rightarrow> string \<Rightarrow> replicateConfig \<Rightarrow> filesystem \<Rightarrow>
   (error option \<times> filesystem) option" where
  "replicateTree n src dst config fs =
     (case os_RemoveAll dst fs of
        (Some err, fs') \<Rightarrow>
          Some (Some (Errorf ''Failed to remove file at destination %s: %v'' dst err), fs')
      | (None, fs') \<Rightarrow>
          (case filepath_EvalSymlinks src fs' of
             Inl err \<Rightarrow> Some (Some err, fs')
           | Inr src \<Rightarrow>
               (case os_Stat src fs' of
                  Inl err \<Rightarrow> Some (Some err, fs')
                | Inr s \<Rightarrow>
                    if IsDir s then replicateDir n src dst config fs'
                    else Some (replicateFile src dst config fs'))))"

fun replicateTrees ::
  "nat \<Rightarrow> string \<Rightarrow> string \<Rightarrow> replicateConfig \<Rightarrow> string list \<Rightarrow> filesystem \<Rightarrow>
   (error option \<times> filesystem) option" where
  "replicateTrees n src dst config [] fs = Some (None, fs)"
| "replicateTrees n src dst config (base # bases) fs =
     (let from = filepath_Join src base;
          to = filepath_Join dst base
      in case replicateTree n from to config fs of
           None \<Rightarrow> None
         | Some (Some err, fs') \<Rightarrow> Some (Some err, fs')
         | Some (None, fs') \<Rightarrow> replicateTrees n src dst config bases fs')"

definition filesystemReplicator_Replicate ::
  "nat \<Rightarrow> string \<Rightarrow> string \<Rightarrow> replicateConfig \<Rightarrow> filesystem \<Rightarrow>
   (error option \<times> filesystem) option" where
  "filesystemReplicator_Replicate n src dst config fs =
     (if length (paths config) = 0 then replicateTree n src dst config fs
      else replicateTrees n src dst config (paths config) fs)"

text \<open>Archives. An entry of an archive has a name, the directory bit and the
  permission bits of its external attributes, and what opening and reading it yields.
  \<open>FileInfo().IsDir()\<close> holds for an entry with the directory bit and for an entry
  whose name ends with a slash.\<close>

datatype zip_contents = OpenFails error | ReadFails error | Contents string

record zip_File =
  Name :: string
  dir_attr :: bool
  perm_attr :: nat
  contents :: zip_contents

definition zip_FileInfo :: "zip_File \<Rightarrow> FileInfo" where
  "zip_FileInfo f =
     \<lparr>IsDir = (dir_attr f \<or> (Name f \<noteq> [] \<and> last (Name f) = CHR ''/'')), Mode = perm_attr f\<rparr>"

text \<open>The body of the first loop of \<open>zipReplicator.Replicate\<close> for the entry
  \<open>f\<close>: the loop over the paths, left at the first path that is a prefix of the
  name. The map \<open>dirs\<close> is the list of its keys.\<close>

fun collect_entry ::
  "zip_File \<Rightarrow> string list \<Rightarrow> string list \<times> zip_File list \<Rightarrow> string list \<times> zip_File list" where
  "collect_entry f [] (dirs, files) = (dirs, files)"
| "collect_entry f (path' # paths') (dirs, files) =
     (if strings_HasPrefix (Name f) path' then
        (if IsDir (zip_FileInfo f) then (List.insert (Name f) dirs, files)
         else (List.insert (filepath_Dir (Name f)) dirs, files @ [f]))
      else collect_entry f paths' (dirs, files))"

definition collect_entries ::
  "zip_File list \<Rightarrow> string list \<Rightarrow> string list \<times> zip_File list" where
  "collect_entries in_File paths' = foldl (\<lambda>acc f. collect_entry f paths' acc) ([], []) in_File"

definition extract_file :: "string \<Rightarrow> zip_File \<Rightarrow> filesystem \<Rightarrow> error option \<times> filesystem" where
  "extract_file dst file fs =
     (let to = filepath_Join dst (Name file)
      in case os_MkdirAll (filepath_Dir to) fs of
           (Some err, fs') \<Rightarrow> (Some err, fs')
         | (None, fs') \<Rightarrow>
             (case contents file of
                OpenFails err \<Rightarrow>
                  (Some (Errorf ''could not open zip file entry %s: %v'' (Name file) err), fs')
              | ReadFails err \<Rightarrow> createFile (Inl err) (zip_FileInfo file) to fs'
              | Contents data \<Rightarrow> createFile (Inr data) (zip_FileInfo file) to fs'))"

fun prepare_dirs ::
  "string \<Rightarrow> replicateConfig \<Rightarrow> string list \<Rightarrow> filesystem \<Rightarrow> error option \<times> filesystem" where
  "prepare_dirs dst config [] fs = (None, fs)"
| "prepare_dirs dst config (dir # dirs) fs =
     (let to = filepath_Join dst dir
      in case replicatePrepare to config fs of
           (Some err, fs') \<Rightarrow> (Some err, fs')
         | (None, fs') \<Rightarrow> prepare_dirs dst config dirs fs')"

fun extract_files ::
  "string \<Rightarrow> zip_File list \<Rightarrow> filesystem \<Rightarrow> error option \<times> filesystem" where
  "extract_files dst [] fs = (None, fs)"
| "extract_files dst (f # files) fs =
     (case extract_file dst f fs of
        (Some err, fs') \<Rightarrow> (Some err, fs')
      | (None, fs') \<Rightarrow> extract_files dst files fs')"

text \<open>Go leaves open the order in which \<open>range\<close> runs over the keys of a map.
  The order is a parameter: each number chooses the next key among those that remain,
  so that every order of the keys is the order of some choices, and of no choices the
  order in which the keys were recorded.\<close>

fun range_order :: "nat list \<Rightarrow> 'a list \<Rightarrow> 'a list" where
  "range_order [] keys = keys"
| "range_order (c # choices) keys =
     (if keys = [] then []
      else (let i = c mod length keys
            in keys ! i # range_order choices (take i keys @ drop (Suc i) keys)))"

text \<open>\<open>zipReplicator.Replicate\<close>. What \<open>zip.OpenReader\<close> yields for an archive
  name is a parameter.\<close>

definition zipReplicator_Replicate ::
  "(string \<Rightarrow> error + zip_File list) \<Rightarrow> nat list \<Rightarrow>
   string \<Rightarrow> string \<Rightarrow> replicateConfig \<Rightarrow> filesystem \<Rightarrow> error option \<times> filesystem" where
  "zipReplicator_Replicate zip_OpenReader choices src dst config fs =
     (case zip_OpenReader (zip' config) of
        Inl err \<Rightarrow> (Some err, fs)
      | Inr in_File \<Rightarrow>
          (let (dirs, files) = collect_entries in_File (paths config)
           in case prepare_dirs dst config (range_order choices dirs) fs of
                (Some err, fs') \<Rightarrow> (Some err, fs')
              | (None, fs') \<Rightarrow> extract_files dst files fs'))"

definition replicate' ::
  "(string \<Rightarrow> error + zip_File list) \<Rightarrow> nat list \<Rightarrow> nat \<Rightarrow>
   string \<Rightarrow> string \<Rightarrow> replicateOption list \<Rightarrow> filesystem \<Rightarrow>
   (error option \<times> filesystem) option" where
  "replicate' zip_OpenReader choices n src dst options fs =
     (let config = \<lparr>removeFirst = True, fileMode = copyMode, dirMode = copyMode,
                     paths = [], zip' = []\<rparr>;
          config = foldl (\<lambda>config option. apply_option option config) config options
      in if zip' config = [] then filesystemReplicator_Replicate n src dst config fs
         else Some (zipReplicator_Replicate zip_OpenReader choices src dst config fs))"

text \<open>Examples: an archive with two file entries and the entry of an empty directory,
  an archive with directory entries only, and the configuration that \<open>replicate'\<close>
  builds from the options \<open>replicatePaths("a")\<close> and \<open>replicateFromZip("sdk.zip")\<close>.\<close>

definition example_archive :: "zip_File list" where
  "example_archive =
     [\<lparr>Name = ''a/b/c.txt'', dir_attr = False, perm_attr = 420, contents = Contents ''hello''\<rparr>,
      \<lparr>Name = ''a/empty/'', dir_attr = False, perm_attr = 493, contents = Contents ''''\<rparr>,
      \<lparr>Name = ''ab/d.txt'', dir_attr = False, perm_attr = 420, contents = Contents ''d''\<rparr>,
      \<lparr>Name = ''x/y.txt'', dir_attr = False, perm_attr = 420, contents = Contents ''no''\<rparr>]"

definition example_dirs_archive :: "zip_File list" where
  "example_dirs_archive =
     [\<lparr>Name = ''a/'', dir_attr = False, perm_attr = 493, contents = Contents ''''\<rparr>,
      \<lparr>Name = ''a/b/'', dir_attr = False, perm_attr = 493, contents = Contents ''''\<rparr>]"

definition example_config :: replicateConfig where
  "example_config =
     \<lparr>removeFirst = True, fileMode = copyMode, dirMode = copyMode, paths = [''a''],
      zip' = ''sdk.zip''\<rparr>"

text \<open>A destination that holds a file of an earlier replication, and a source tree.\<close>

definition example_stale :: filesystem where
  "example_stale =
     [([''out''], Directory), ([''out'', ''a''], Directory),
      ([''out'', ''a'', ''old.txt''], RegularFile ''old'' 420),
      ([''src''], Directory), ([''src'', ''a''], Directory),
      ([''src'', ''a'', ''new.txt''], RegularFile ''new'' 420)]"

definition example_new_archive :: "zip_File list" where
  "example_new_archive =
     [\<lparr>Name = ''a/new.txt'', dir_attr = False, perm_attr = 420, contents = Contents ''new''\<rparr>]"

section \<open>Predicates for the replication of a file system tree\<close>

text \<open>A proper name is one element of a path. A plain tree is a file system of
  directories and regular files in which every name is proper and every entry lies in
  a directory.\<close>

definition proper_name :: "string \<Rightarrow> bool" where
  "proper_name c = (c \<noteq> [] \<and> c \<noteq> ''.'' \<and> c \<noteq> ''..'' \<and> CHR ''/'' \<notin> set c)"

fun is_link :: "node \<Rightarrow> bool" where
  "is_link (SymbolicLink t) = True"
| "is_link _ = False"

definition plain_entry :: "filesystem \<Rightarrow> string list \<times> node \<Rightarrow> bool" where
  "plain_entry fs e =
     (fst e \<noteq> [] \<and> list_all proper_name (fst e) \<and> \<not> is_link (snd e) \<and>
      fs_get fs (butlast (fst e)) = Some Directory)"

definition plain_tree :: "filesystem \<Rightarrow> bool" where
  "plain_tree fs = list_all (plain_entry fs) fs"

text \<open>The invariant of the walk over the source tree \<open>s\<close> of the file system
  \<open>F\<close>, with the destination \<open>d\<close>: the source and the directories above it are as
  in \<open>F\<close>, the directories above the destination exist, and an entry below the
  destination is the entry of \<open>F\<close> at the same place below the source. \<open>kept\<close>
  says that what is below the destination stays; \<open>copied_below\<close> that the files
  below \<open>s @ r\<close> are at the destination; \<open>walk_spec\<close> is what \<open>walk\<close> does
  when its bound suffices for the depth \<open>L\<close> of the source.\<close>

definition src_ok :: "filesystem \<Rightarrow> string list \<Rightarrow> bool" where
  "src_ok F s =
     (\<forall>q. prefix s q \<and> fs_get F q \<noteq> None \<longrightarrow>
        list_all proper_name q \<and> (\<forall>t. fs_get F q \<noteq> Some (SymbolicLink t)) \<and>
        (\<forall>q'. strict_prefix q' q \<longrightarrow> fs_get F q' = Some Directory))"

definition mirror_inv :: "filesystem \<Rightarrow> string list \<Rightarrow> string list \<Rightarrow> filesystem \<Rightarrow> bool" where
  "mirror_inv F s d X =
     ((\<forall>q. prefix s q \<or> prefix q s \<longrightarrow> fs_get X q = fs_get F q) \<and>
      (\<forall>q. strict_prefix q d \<longrightarrow> fs_get X q = Some Directory) \<and>
      (\<forall>r. fs_get X (d @ r) = None \<or> fs_get X (d @ r) = fs_get F (s @ r)))"

definition kept :: "string list \<Rightarrow> filesystem \<Rightarrow> filesystem \<Rightarrow> bool" where
  "kept d X X' = (\<forall>r. fs_get X (d @ r) \<noteq> None \<longrightarrow> fs_get X' (d @ r) = fs_get X (d @ r))"

definition copied_below ::
  "filesystem \<Rightarrow> string list \<Rightarrow> string list \<Rightarrow> string list \<Rightarrow> filesystem \<Rightarrow> bool" where
  "copied_below F s d r X =
     (\<forall>r' c m. prefix r r' \<and> fs_get F (s @ r') = Some (RegularFile c m) \<longrightarrow>
        fs_get X (d @ r') = Some (RegularFile c m))"

definition setting ::
  "filesystem \<Rightarrow> string list \<Rightarrow> string list \<Rightarrow> replicateConfig \<Rightarrow> nat \<Rightarrow> bool" where
  "setting F s d config L =
     (s \<noteq> [] \<and> list_all proper_name s \<and> d \<noteq> [] \<and> list_all proper_name d \<and>
      \<not> prefix s d \<and> \<not> prefix d s \<and> src_ok F s \<and>
      removeFirst config \<and> fileMode config = copyMode \<and>
      (\<forall>q. prefix s q \<and> fs_get F q \<noteq> None \<longrightarrow> length q \<le> L))"

definition walk_spec ::
  "filesystem \<Rightarrow> string list \<Rightarrow> string list \<Rightarrow> replicateConfig \<Rightarrow> nat \<Rightarrow> nat \<Rightarrow> bool" where
  "walk_spec F s d config L n =
     (\<forall>r X nd. mirror_inv F s d X \<and> fs_get F (s @ r) = Some nd \<and> (r = [] \<longrightarrow> nd = Directory) \<and>
        L < n + length (s @ r) \<longrightarrow>
        (\<exists>X'. walk n (join ''/'' (s @ r)) (node_info nd)
                 (replicateDir_walkFn (join ''/'' s) (join ''/'' d) config) X = Some (None, X') \<and>
              mirror_inv F s d X' \<and> kept d X X' \<and> copied_below F s d r X'))"

section \<open>Properties of standard library provisioning and of the flags\<close>

text \<open>
  Claim C1. Provisioning issues no build action exactly when the mode's OS and
  architecture are the SDK's, race, msan and pure are all off and the link mode is
  normal. In that case the result is the SDK's own root file and archives and the
  action log is empty; in every other case a \<open>GoStdlib\<close> action is issued and the
  result is the newly declared root and package directory, never the SDK's.
\<close>

theorem stdlib_reuse_iff_native_plain_mode:
  "(let (lib, acts) = stdlib_library_to_source lma extld go;
        native_plain =
          (goos (mode go) = sdk_goos (sdk go) \<and> goarch (mode go) = sdk_goarch (sdk go) \<and>
           \<not> race (mode go) \<and> \<not> msan (mode go) \<and> \<not> pure (mode go) \<and>
           link (mode go) = ''normal'')
    in (filter is_build_action acts = []) = native_plain \<and>
       (native_plain \<longrightarrow>
          lib = \<lparr>root_file = sdk_root_file (sdk go), libs = sdk_libs (sdk go)\<rparr> \<and> acts = []) \<and>
       (\<not> native_plain \<longrightarrow>
          list_ex (has_mnemonic ''GoStdlib'') acts \<and>
          lib = \<lparr>root_file = declare_file go ''ROOT'', libs = [declare_directory go ''pkg'']\<rparr>))"
  by (auto simp: stdlib_library_to_source_def should_use_sdk_stdlib_def LINKMODE_NORMAL_def
      sdk_stdlib_def build_stdlib_def Let_def split: option.splits)

theorem stdlib_reuse_iff_native_plain_mode_witness:
  "stdlib_library_to_source (\<lambda>m. []) (\<lambda>g. []) example_go =
     (\<lparr>root_file = file_at ''external/go_sdk'' ''ROOT'',
       libs = [file_at ''external/go_sdk/pkg/linux_amd64'' ''fmt.a'']\<rparr>, []) \<and>
   list_ex (has_mnemonic ''GoStdlib'')
     (snd (stdlib_library_to_source (\<lambda>m. []) (\<lambda>g. [])
        (example_go\<lparr>mode := example_mode\<lparr>race := True\<rparr>\<rparr>))) \<and>
   list_ex (has_mnemonic ''GoStdlib'')
     (snd (stdlib_library_to_source (\<lambda>m. []) (\<lambda>g. [])
        (example_go\<lparr>mode := example_mode\<lparr>goos := ''darwin''\<rparr>\<rparr>)))"
  using stdlib_reuse_iff_native_plain_mode [of "\<lambda>m. []" "\<lambda>g. []" example_go]
    stdlib_reuse_iff_native_plain_mode [of "\<lambda>m. []" "\<lambda>g. []"
      "example_go\<lparr>mode := example_mode\<lparr>race := True\<rparr>\<rparr>"]
    stdlib_reuse_iff_native_plain_mode [of "\<lambda>m. []" "\<lambda>g. []"
      "example_go\<lparr>mode := example_mode\<lparr>goos := ''darwin''\<rparr>\<rparr>"]
  by (simp add: example_go_def example_mode_def example_sdk_def Let_def split: prod.splits)

lemma drop_root_prefix: "p = d @ ''/'' @ rel \<Longrightarrow> drop (length d + 1) p = rel"
  by simp

lemma build_stdlib_zipper_actions:
  assumes "zipper go = Some z"
  shows "snd (build_stdlib lma extld go) =
    [Write (declare_file go ''ROOT'') [],
     Run \<lparr>inputs = sdk_inputs_of go, outputs = [actions_declare_file go ''sdk.zip''],
          mnemonic = ''GoStdlibZip'',
          progress_message =
            Some (''Packaging '' @ show_nat (length (sdk_inputs_of go)) @ '' stdlib files''),
          executable = z,
          arguments = zip_arguments go (actions_declare_file go ''sdk.zip'') (sdk_inputs_of go),
          run_env = None\<rparr>,
     Run \<lparr>inputs = [actions_declare_file go ''sdk.zip''] @ crosstool go @
                   [sdk_package_list (sdk go)],
          outputs = [declare_directory go ''pkg'', declare_directory go ''src''],
          mnemonic = ''GoStdlib'', progress_message = None,
          executable = toolchain_builder go,
          arguments =
            (builder_args go ''stdlib'' @ [''-out'', dirname (declare_file go ''ROOT'')] @
             (if race (mode go) then [''-race''] else []) @ lma (mode go)) @
            [''-sdkzip'', path (actions_declare_file go ''sdk.zip'')],
          run_env = Some (build_env extld go)\<rparr>]"
  using assms by (simp add: build_stdlib_def Let_def)

text \<open>
  Claim C4. With a zipper, the build actions are exactly a \<open>GoStdlibZip\<close> action
  followed by the \<open>GoStdlib\<close> action. The first runs the zipper on all SDK inputs
  (sources, headers, tools, the go binary, the root file) and produces the one archive;
  each of its entries is named by the input's path without its first
  \<open>len(root_file.dirname) + 1\<close> characters, which is the path relative to the SDK
  root for an input below it. The archive is the only SDK input of the second action,
  whose arguments end with \<open>-sdkzip\<close> and the archive's path.
\<close>

theorem zipper_packages_sdk_inputs:
  assumes "zipper go = Some z"
  shows
  "(let sdk_inputs = sdk_srcs (sdk go) @ sdk_headers (sdk go) @ sdk_tools (sdk go) @
                     [sdk_go (sdk go), sdk_root_file (sdk go)];
        sdkzip = actions_declare_file go ''sdk.zip'';
        prefixlen = length (dirname (sdk_root_file (sdk go))) + 1
    in \<exists>zipact mainact pre.
         filter is_build_action (snd (build_stdlib lma extld go)) = [Run zipact, Run mainact] \<and>
         mnemonic zipact = ''GoStdlibZip'' \<and> executable zipact = z \<and>
         inputs zipact = sdk_inputs \<and> outputs zipact = [sdkzip] \<and>
         arguments zipact =
           ''cC'' # path sdkzip # map (\<lambda>f. drop prefixlen (path f) @ ''='' @ path f) sdk_inputs \<and>
         (\<forall>f \<in> set sdk_inputs. \<forall>rel.
            path f = dirname (sdk_root_file (sdk go)) @ ''/'' @ rel \<longrightarrow>
            rel @ ''='' @ path f \<in> set (arguments zipact)) \<and>
         mnemonic mainact = ''GoStdlib'' \<and>
         inputs mainact = sdkzip # crosstool go @ [sdk_package_list (sdk go)] \<and>
         arguments mainact = pre @ [''-sdkzip'', path sdkzip])"
proof -
  define sdk_inputs where "sdk_inputs = sdk_inputs_of go"
  define sdkzip where "sdkzip = actions_declare_file go ''sdk.zip''"
  define d where "d = dirname (sdk_root_file (sdk go))"
  define zargs where
    "zargs = ''cC'' # path sdkzip # map (\<lambda>f. drop (length d + 1) (path f) @ ''='' @ path f) sdk_inputs"
  define pre where
    "pre = builder_args go ''stdlib'' @ [''-out'', dirname (declare_file go ''ROOT'')] @
             (if race (mode go) then [''-race''] else []) @ lma (mode go)"
  define zipact where
    "zipact = \<lparr>inputs = sdk_inputs, outputs = [sdkzip], mnemonic = ''GoStdlibZip'',
          progress_message =
            Some (''Packaging '' @ show_nat (length sdk_inputs) @ '' stdlib files''),
          executable = z, arguments = zargs, run_env = None\<rparr>"
  define mainact where
    "mainact = \<lparr>inputs = [sdkzip] @ crosstool go @ [sdk_package_list (sdk go)],
          outputs = [declare_directory go ''pkg'', declare_directory go ''src''],
          mnemonic = ''GoStdlib'', progress_message = None,
          executable = toolchain_builder go,
          arguments = pre @ [''-sdkzip'', path sdkzip],
          run_env = Some (build_env extld go)\<rparr>"
  have rel: "rel @ ''='' @ path f \<in> set zargs"
    if "f \<in> set sdk_inputs" and "path f = d @ ''/'' @ rel" for f rel
  proof -
    have e: "drop (length d + 1) (path f) = rel"
      using that(2) by (rule drop_root_prefix)
    have "drop (length d + 1) (path f) @ ''='' @ path f
        \<in> (\<lambda>f. drop (length d + 1) (path f) @ ''='' @ path f) ` set sdk_inputs"
      using that(1) by (rule imageI)
    then have "rel @ ''='' @ path f \<in> set (map (\<lambda>f. drop (length d + 1) (path f) @ ''='' @ path f) sdk_inputs)"
      unfolding e set_map .
    then show ?thesis
      unfolding zargs_def by (simp only: list.set insert_iff) blast
  qed
  have zeq: "zip_arguments go sdkzip sdk_inputs = zargs"
    by (simp add: zip_arguments_def zargs_def d_def Let_def)
  have acts: "filter is_build_action (snd (build_stdlib lma extld go)) = [Run zipact, Run mainact]"
    unfolding build_stdlib_zipper_actions [OF assms] sdk_inputs_def [symmetric]
      sdkzip_def [symmetric] zeq pre_def [symmetric] zipact_def mainact_def by simp
  have ins: "sdk_srcs (sdk go) @ sdk_headers (sdk go) @ sdk_tools (sdk go) @
                     [sdk_go (sdk go), sdk_root_file (sdk go)] = sdk_inputs"
    by (simp add: sdk_inputs_def sdk_inputs_of_def)
  have c1: "mnemonic zipact = ''GoStdlibZip''" "executable zipact = z"
    "inputs zipact = sdk_inputs" "outputs zipact = [sdkzip]" "arguments zipact = zargs"
    by (simp_all add: zipact_def)
  have c2: "mnemonic mainact = ''GoStdlib''"
    "inputs mainact = sdkzip # crosstool go @ [sdk_package_list (sdk go)]"
    "arguments mainact = pre @ [''-sdkzip'', path sdkzip]"
    by (simp_all add: mainact_def)
  have c3: "\<forall>f \<in> set sdk_inputs. \<forall>rel.
            path f = d @ ''/'' @ rel \<longrightarrow> rel @ ''='' @ path f \<in> set (arguments zipact)"
    unfolding c1(5) using rel by blast
  have "\<exists>zipact mainact pre.
         filter is_build_action (snd (build_stdlib lma extld go)) = [Run zipact, Run mainact] \<and>
         mnemonic zipact = ''GoStdlibZip'' \<and> executable zipact = z \<and>
         inputs zipact = sdk_inputs \<and> outputs zipact = [sdkzip] \<and>
         arguments zipact =
           ''cC'' # path sdkzip # map (\<lambda>f. drop (length d + 1) (path f) @ ''='' @ path f) sdk_inputs \<and>
         (\<forall>f \<in> set sdk_inputs. \<forall>rel.
            path f = d @ ''/'' @ rel \<longrightarrow> rel @ ''='' @ path f \<in> set (arguments zipact)) \<and>
         mnemonic mainact = ''GoStdlib'' \<and>
         inputs mainact = sdkzip # crosstool go @ [sdk_package_list (sdk go)] \<and>
         arguments mainact = pre @ [''-sdkzip'', path sdkzip]"
    apply (rule exI [of _ zipact], rule exI [of _ mainact], rule exI [of _ pre])
    apply (intro conjI)
    apply (fact acts c1 c2 c3 | (unfold zargs_def [symmetric], fact c1))+
    done
  then show ?thesis
    unfolding Let_def ins sdkzip_def [symmetric] d_def [symmetric] .
qed


theorem zipper_packages_sdk_inputs_witness:
  "\<exists>zipact mainact pre.
     filter is_build_action
       (snd (build_stdlib (\<lambda>m. []) (\<lambda>g. [])
          (example_go\<lparr>zipper := Some (file_at ''tools'' ''zipper'')\<rparr>))) =
       [Run zipact, Run mainact] \<and>
     arguments zipact =
       [''cC'', ''bazel-out/sdk.zip'',
        ''src/fmt/print.go=external/go_sdk/src/fmt/print.go'',
        ''pkg/include/textflag.h=external/go_sdk/pkg/include/textflag.h'',
        ''pkg/tool/linux_amd64/compile=external/go_sdk/pkg/tool/linux_amd64/compile'',
        ''bin/go=external/go_sdk/bin/go'',
        ''ROOT=external/go_sdk/ROOT''] \<and>
     map path (inputs mainact) =
       [''bazel-out/sdk.zip'', ''external/cc/gcc'', ''external/go_sdk/packages.txt''] \<and>
     arguments mainact = pre @ [''-sdkzip'', ''bazel-out/sdk.zip'']"
proof -
  let ?go = "example_go\<lparr>zipper := Some (file_at ''tools'' ''zipper'')\<rparr>"
  have z: "zipper ?go = Some (file_at ''tools'' ''zipper'')"
    by simp
  from zipper_packages_sdk_inputs [OF z, of "\<lambda>m. []" "\<lambda>g. []"]
  obtain zipact mainact pre where
    a: "filter is_build_action (snd (build_stdlib (\<lambda>m. []) (\<lambda>g. []) ?go)) =
        [Run zipact, Run mainact]"
    and za: "arguments zipact =
      ''cC'' # path (actions_declare_file ?go ''sdk.zip'') #
      map (\<lambda>f. drop (length (dirname (sdk_root_file (sdk ?go))) + 1) (path f) @ ''='' @ path f)
        (sdk_srcs (sdk ?go) @ sdk_headers (sdk ?go) @ sdk_tools (sdk ?go) @
                     [sdk_go (sdk ?go), sdk_root_file (sdk ?go)])"
    and mi: "inputs mainact =
      actions_declare_file ?go ''sdk.zip'' # crosstool ?go @ [sdk_package_list (sdk ?go)]"
    and ma: "arguments mainact = pre @ [''-sdkzip'', path (actions_declare_file ?go ''sdk.zip'')]"
    unfolding Let_def by blast
  have za': "arguments zipact =
       [''cC'', ''bazel-out/sdk.zip'',
        ''src/fmt/print.go=external/go_sdk/src/fmt/print.go'',
        ''pkg/include/textflag.h=external/go_sdk/pkg/include/textflag.h'',
        ''pkg/tool/linux_amd64/compile=external/go_sdk/pkg/tool/linux_amd64/compile'',
        ''bin/go=external/go_sdk/bin/go'',
        ''ROOT=external/go_sdk/ROOT'']"
    unfolding za by (simp add: example_go_def example_sdk_def file_at_def)
  have mi': "map path (inputs mainact) =
       [''bazel-out/sdk.zip'', ''external/cc/gcc'', ''external/go_sdk/packages.txt'']"
    unfolding mi by (simp add: example_go_def example_sdk_def file_at_def)
  have ma': "arguments mainact = pre @ [''-sdkzip'', ''bazel-out/sdk.zip'']"
    unfolding ma by (simp add: example_go_def file_at_def)
  show ?thesis
    apply (rule exI [of _ zipact], rule exI [of _ mainact], rule exI [of _ pre])
    apply (intro conjI)
       apply (fact a za' mi' ma')+
    done
qed

text \<open>
  Claim C5. The environment of the \<open>GoStdlib\<close> action has \<open>CGO_ENABLED=0\<close> in
  pure mode; otherwise it has \<open>CGO_ENABLED=1\<close>, \<open>CC\<close> set to the toolchain's
  compiler path, and \<open>CGO_CFLAGS\<close> and \<open>CGO_LDFLAGS\<close> set to the toolchain's
  compile options and link flags joined by spaces.
\<close>

theorem stdlib_build_env_cgo:
  "\<exists>r e. last (snd (build_stdlib lma extld go)) = Run r \<and> mnemonic r = ''GoStdlib'' \<and>
     run_env r = Some e \<and>
     (pure (mode go) \<longrightarrow> e ''CGO_ENABLED'' = Some ''0'') \<and>
     (\<not> pure (mode go) \<longrightarrow>
        e ''CGO_ENABLED'' = Some ''1'' \<and>
        e ''CC'' = Some (c_compiler_path (cgo_tools go)) \<and>
        e ''CGO_CFLAGS'' = Some (join '' '' (c_compile_options (cgo_tools go))) \<and>
        e ''CGO_LDFLAGS'' = Some (join '' '' (extld go)))"
  by (cases "zipper go") (simp_all add: build_stdlib_def Let_def build_env_def)

theorem stdlib_build_env_cgo_witness:
  "(\<exists>r e. last (snd (build_stdlib (\<lambda>m. []) (\<lambda>g. [''-lm'', ''-lpthread''])
        (example_go\<lparr>mode := example_mode\<lparr>pure := True\<rparr>\<rparr>))) = Run r \<and>
      run_env r = Some e \<and> e ''CGO_ENABLED'' = Some ''0'') \<and>
   (\<exists>r e. last (snd (build_stdlib (\<lambda>m. []) (\<lambda>g. [''-lm'', ''-lpthread'']) example_go)) = Run r \<and>
      run_env r = Some e \<and> e ''CGO_ENABLED'' = Some ''1'' \<and> e ''CC'' = Some ''/usr/bin/gcc'' \<and>
      e ''CGO_CFLAGS'' = Some ''-O2 -g'' \<and> e ''CGO_LDFLAGS'' = Some ''-lm -lpthread'')"
proof -
  let ?p = "example_go\<lparr>mode := example_mode\<lparr>pure := True\<rparr>\<rparr>"
  have p: "pure (mode ?p)" "\<not> pure (mode example_go)"
    by (simp_all add: example_go_def example_mode_def)
  have v: "c_compiler_path (cgo_tools example_go) = ''/usr/bin/gcc''"
    "join '' '' (c_compile_options (cgo_tools example_go)) = ''-O2 -g''"
    "join '' '' [''-lm'', ''-lpthread''] = ''-lm -lpthread''"
    by (simp_all add: example_go_def)
  from stdlib_build_env_cgo [of "\<lambda>m. []" "\<lambda>g. [''-lm'', ''-lpthread'']" ?p] p(1)
  have a: "\<exists>r e. last (snd (build_stdlib (\<lambda>m. []) (\<lambda>g. [''-lm'', ''-lpthread'']) ?p)) = Run r \<and>
      run_env r = Some e \<and> e ''CGO_ENABLED'' = Some ''0''"
    by blast
  from stdlib_build_env_cgo [of "\<lambda>m. []" "\<lambda>g. [''-lm'', ''-lpthread'']" example_go] p(2)
  have b: "\<exists>r e. last (snd (build_stdlib (\<lambda>m. []) (\<lambda>g. [''-lm'', ''-lpthread'']) example_go)) = Run r \<and>
      run_env r = Some e \<and> e ''CGO_ENABLED'' = Some ''1'' \<and> e ''CC'' = Some ''/usr/bin/gcc'' \<and>
      e ''CGO_CFLAGS'' = Some ''-O2 -g'' \<and> e ''CGO_LDFLAGS'' = Some ''-lm -lpthread''"
    unfolding v by blast
  from a b show ?thesis by (rule conjI)
qed

text \<open>
  Claim C9. \<open>checkFlags\<close> returns an error exactly when the SDK path is empty;
  the SDK archive path, the install suffix, the verbose flag and the flag preserving
  the work directory do not change its result (the build tags are parsed into a value
  that is not part of \<open>env\<close>), and with every other flag left at its default a
  non-empty SDK path passes the check.
\<close>

theorem checkFlags_fails_iff_sdk_unset:
  "(checkFlags e \<noteq> None) = (env_sdk e = '''') \<and>
   checkFlags (e\<lparr>env_sdkzip := z, installSuffix := s, verbose := v,
                 shouldPreserveWorkDir := w\<rparr>) = checkFlags e \<and>
   (checkFlags (envFlags\<lparr>env_sdk := p\<rparr>) = None) = (p \<noteq> '''')"
  by (simp add: checkFlags_def envFlags_def)

section \<open>Properties of parameter files and of path absolutization\<close>

lemma split_on_not_Nil: "split_on sep s \<noteq> []"
  by (induction s) (auto split: list.splits)

lemma file_args_eq:
  "(let fileArgs = split_on (CHR 0x0A) content
    in if fileArgs ! (length fileArgs - 1) = [] then take (length fileArgs - 1) fileArgs
       else fileArgs) = file_lines content"
  using split_on_not_Nil [of "CHR 0x0A" content]
  by (simp add: file_lines_def Let_def last_conv_nth butlast_conv_take)

lemma length_param_flag: "length ''-param='' = 7"
  by simp

lemma expandParams_Cons:
  assumes "ioutil_ReadFile (drop 7 (args ! pi)) fs = Inr c"
  shows "expandParams fs args (pi # pis) lst acc =
         expandParams fs args pis (pi + 1) (acc @ take (pi - lst) (drop lst args) @ file_lines c)"
  unfolding expandParams.simps length_param_flag Let_def assms
  using split_on_not_Nil [of "CHR 0x0A" c] file_args_eq [of c]
  by (simp add: Let_def)

lemma expandParams_general:
  assumes ok: "\<forall>a \<in> set args. strings_HasPrefix a ''-param='' \<longrightarrow>
                 (\<exists>c. ioutil_ReadFile (drop 7 a) fs = Inr c)"
    and "lst \<le> l"
    and "\<forall>j. lst \<le> j \<and> j < l \<longrightarrow> j < length args"
  shows "expandParams fs args [i \<leftarrow> [l ..< length args]. strings_HasPrefix (args ! i) ''-param=''] lst acc =
         Inr (acc @ take (l - lst) (drop lst args) @
              concat (map (\<lambda>a. if strings_HasPrefix a ''-param=''
                                then file_lines (file_contents fs (drop 7 a)) else [a])
                        (drop l args)))"
  using assms(2,3)
proof (induction "length args - l" arbitrary: l lst acc)
  case 0
  then have "length args \<le> l" by simp
  then show ?case by simp
next
  case (Suc k)
  then have l: "l < length args" by simp
  have upt: "[l ..< length args] = l # [Suc l ..< length args]"
    using l by (simp add: upt_conv_Cons)
  have dr: "drop l args = args ! l # drop (Suc l) args"
    using l by (simp add: Cons_nth_drop_Suc)
  have k: "k = length args - Suc l" using Suc.hyps(2) by simp
  show ?case
  proof (cases "strings_HasPrefix (args ! l) ''-param=''")
    case True
    from ok l True obtain c where c: "ioutil_ReadFile (drop 7 (args ! l)) fs = Inr c"
      by (meson nth_mem)
    have ih: "expandParams fs args
        [i \<leftarrow> [Suc l ..< length args]. strings_HasPrefix (args ! i) ''-param=''] (Suc l) acc' =
      Inr (acc' @ take (Suc l - Suc l) (drop (Suc l) args) @
              concat (map (\<lambda>a. if strings_HasPrefix a ''-param=''
                                then file_lines (file_contents fs (drop 7 a)) else [a])
                        (drop (Suc l) args)))" for acc'
      by (rule Suc.hyps(1) [OF k]) auto
    show ?thesis
      unfolding upt dr using True c
      by (simp add: expandParams_Cons [OF c] ih file_contents_def del: expandParams.simps)
  next
    case False
    have ih: "expandParams fs args
        [i \<leftarrow> [Suc l ..< length args]. strings_HasPrefix (args ! i) ''-param=''] lst acc =
      Inr (acc @ take (Suc l - lst) (drop lst args) @
              concat (map (\<lambda>a. if strings_HasPrefix a ''-param=''
                                then file_lines (file_contents fs (drop 7 a)) else [a])
                        (drop (Suc l) args)))"
      apply (rule Suc.hyps(1) [OF k])
      using Suc.prems l by (auto simp: less_Suc_eq)
    have tk: "take (Suc l - lst) (drop lst args) = take (l - lst) (drop lst args) @ [args ! l]"
      using Suc.prems(1) l by (simp add: Suc_diff_le take_Suc_conv_app_nth)
    show ?thesis
      unfolding upt dr using False by (simp add: ih tk)
  qed
qed

text \<open>
  Claim C7. When every parameter file named in the arguments can be read,
  \<open>readParamsFiles\<close> returns the arguments with each \<open>-param=<file>\<close> token
  replaced, where it stands, by the lines of the file without a final empty line; all
  other tokens stay, in their order. The file of the example has four lines.
\<close>

theorem readParamsFiles_expands_in_place:
  assumes "\<forall>a \<in> set args. strings_HasPrefix a ''-param='' \<longrightarrow>
             (\<exists>c. ioutil_ReadFile (drop 7 a) fs = Inr c)"
  shows "readParamsFiles fs args =
           Inr (concat (map (\<lambda>a. if strings_HasPrefix a ''-param=''
                                  then file_lines (file_contents fs (drop 7 a)) else [a]) args)) \<and>
         file_lines ''-flag1\<newline>valueA\<newline>-flag2\<newline>valueB\<newline>'' =
           [''-flag1'', ''valueA'', ''-flag2'', ''valueB'']"
proof
  let ?g = "\<lambda>a. if strings_HasPrefix a ''-param=''
                  then file_lines (file_contents fs (drop 7 a)) else [a]"
  have g: "expandParams fs args (paramsIndices args) 0 [] = Inr (concat (map ?g args))"
    unfolding paramsIndices_def using expandParams_general [OF assms, of 0 0 "[]"] by simp
  show "readParamsFiles fs args = Inr (concat (map ?g args))"
  proof (cases "paramsIndices args = []")
    case True
    then have "\<forall>a \<in> set args. \<not> strings_HasPrefix a ''-param=''"
      unfolding paramsIndices_def by (auto simp: filter_empty_conv in_set_conv_nth)
    then have "concat (map ?g args) = args"
      by (induction args) auto
    with True show ?thesis by (simp add: readParamsFiles_def)
  next
    case False
    then show ?thesis by (simp add: readParamsFiles_def g)
  qed
  show "file_lines ''-flag1\<newline>valueA\<newline>-flag2\<newline>valueB\<newline>'' =
           [''-flag1'', ''valueA'', ''-flag2'', ''valueB'']"
    by (simp add: file_lines_def)
qed

theorem readParamsFiles_expands_in_place_witness:
  "readParamsFiles
     [([''p.txt''], RegularFile ''-flag1\<newline>valueA\<newline>-flag2\<newline>valueB\<newline>'' 420)]
     [''-x'', ''-param=p.txt'', ''y''] =
   Inr [''-x'', ''-flag1'', ''valueA'', ''-flag2'', ''valueB'', ''y'']"
proof -
  let ?fs = "[([''p.txt''], RegularFile ''-flag1\<newline>valueA\<newline>-flag2\<newline>valueB\<newline>'' 420)]"
  have r: "ioutil_ReadFile ''p.txt'' ?fs =
      Inr ''-flag1\<newline>valueA\<newline>-flag2\<newline>valueB\<newline>''"
    by code_simp
  have h: "\<forall>a \<in> set [''-x'', ''-param=p.txt'', ''y'']. strings_HasPrefix a ''-param='' \<longrightarrow>
             (\<exists>c. ioutil_ReadFile (drop 7 a) ?fs = Inr c)"
    using r by (simp add: strings_HasPrefix_def)
  from readParamsFiles_expands_in_place [OF h] show ?thesis
    by (simp add: strings_HasPrefix_def file_contents_def r)
qed

lemma absArg_find:
  "absArg getwd a flags =
     (case find (\<lambda>f. prefix f a) flags of
        None \<Rightarrow> (a, False)
      | Some f \<Rightarrow>
          if a = f then (a, True)
          else if prefix (f @ ''='') a then (f @ ''='' @ abs' getwd (drop (length f + 1) a), False)
          else (f @ abs' getwd (drop (length f) a), False))"
proof (induction flags)
  case Nil
  show ?case by simp
next
  case (Cons f flags)
  show ?case
  proof (cases "prefix f a")
    case False
    then show ?thesis using Cons by (simp add: strings_HasPrefix_def)
  next
    case True
    then obtain v where a: "a = f @ v" by (auto simp: prefix_def)
    show ?thesis
    proof (cases v)
      case Nil
      then show ?thesis using a by (simp add: strings_HasPrefix_def)
    next
      case (Cons c v')
      then show ?thesis using a by (simp add: strings_HasPrefix_def Let_def)
    qed
  qed
qed

lemma absArgs_from_absolutized:
  "i \<le> length args \<Longrightarrow>
   absArgs_from getwd flags i absNext args =
     take i args @
     (if absNext then
        (case drop i args of [] \<Rightarrow> [] | v # rest \<Rightarrow> abs' getwd v # absolutized getwd flags rest)
      else absolutized getwd flags (drop i args))"
proof (induction getwd flags i absNext args rule: absArgs_from.induct)
  case (1 getwd flags i absNext args)
  show ?case
  proof (cases "i \<ge> length args")
    case True
    then show ?thesis using "1.prems" by (simp add: absArgs_from.simps)
  next
    case False
    then have i: "i < length args" by simp
    have dr: "drop i args = args ! i # drop (Suc i) args"
      using i by (simp add: Cons_nth_drop_Suc)
    have tk: "take (Suc i) (args[i := x]) = take i args @ [x]" for x
      using i by (simp add: take_Suc_conv_app_nth)
    have dr': "drop (Suc i) (args[i := x]) = drop (Suc i) args" for x
      by simp
    show ?thesis
    proof (cases absNext)
      case True
      have "absArgs_from getwd flags i absNext args =
            absArgs_from getwd flags (i + 1) False (args[i := abs' getwd (args ! i)])"
        using True i by (subst absArgs_from.simps) simp
      also have "\<dots> = take (i + 1) (args[i := abs' getwd (args ! i)]) @
           absolutized getwd flags (drop (i + 1) (args[i := abs' getwd (args ! i)]))"
        using "1.IH"(1) [OF False True] i by simp
      finally show ?thesis using True by (simp add: tk dr' dr del: list_update.simps)
    next
      case nf: False
      obtain v n where vn: "absArg getwd (args ! i) flags = (v, n)"
        by (cases "absArg getwd (args ! i) flags")
      have "absArgs_from getwd flags i absNext args =
            absArgs_from getwd flags (i + 1) n (args[i := v])"
        using nf i vn by (subst absArgs_from.simps) simp
      also have "\<dots> = take (i + 1) (args[i := v]) @
           (if n then
              (case drop (i + 1) (args[i := v]) of [] \<Rightarrow> []
               | w # rest \<Rightarrow> abs' getwd w # absolutized getwd flags rest)
            else absolutized getwd flags (drop (i + 1) (args[i := v])))"
        using "1.IH"(2) [OF False nf vn [symmetric] refl] i by simp
      finally have e: "absArgs_from getwd flags i absNext args =
          take i args @ [v] @
           (if n then
              (case drop (Suc i) args of [] \<Rightarrow> []
               | w # rest \<Rightarrow> abs' getwd w # absolutized getwd flags rest)
            else absolutized getwd flags (drop (Suc i) args))"
        by (simp add: tk dr' del: list_update.simps)
      show ?thesis
      proof (cases "find (\<lambda>f. prefix f (args ! i)) flags")
        case None
        with vn have "v = args ! i" "n = False"
          by (simp_all add: absArg_find)
        then show ?thesis
          unfolding e dr using nf None by simp
      next
        case (Some f)
        show ?thesis
        proof (cases "args ! i = f")
          case True
          with vn Some have "v = args ! i" "n = True"
            by (simp_all add: absArg_find)
          then show ?thesis
            unfolding e dr using nf Some True by (simp split: list.splits)
        next
          case False
          with vn Some have
            "v = (if prefix (f @ ''='') (args ! i)
                  then f @ ''='' @ abs' getwd (drop (length f + 1) (args ! i))
                  else f @ abs' getwd (drop (length f) (args ! i)))" "n = False"
            by (simp_all add: absArg_find split: if_splits)
          then show ?thesis
            unfolding e dr using nf Some False by simp
        qed
      qed
    qed
  qed
qed

lemma length_absArgs_from: "length (absArgs_from getwd flags i n args) = length args"
proof (induction getwd flags i n args rule: absArgs_from.induct)
  case (1 getwd flags i absNext args)
  show ?case
    using 1 by (subst absArgs_from.simps) (auto split: prod.splits)
qed

lemma IsAbs_Clean: "filepath_IsAbs p \<Longrightarrow> filepath_IsAbs (filepath_Clean p)"
  by (simp add: filepath_Clean_def filepath_IsAbs_def strings_HasPrefix_def Let_def)

lemma IsAbs_Join: "filepath_IsAbs wd \<Longrightarrow> filepath_IsAbs (filepath_Join wd p)"
proof -
  assume a: "filepath_IsAbs wd"
  then have "wd \<noteq> []" by (auto simp: filepath_IsAbs_def strings_HasPrefix_def)
  moreover have "filepath_IsAbs (wd @ ''/'' @ p)"
    using a by (auto simp: filepath_IsAbs_def strings_HasPrefix_def prefix_def)
  ultimately show ?thesis by (simp add: filepath_Join_def IsAbs_Clean)
qed

text \<open>
  Claim C6. \<open>absArgs\<close> is the rewriting \<open>absolutized\<close>: the value of a flag,
  whether it follows the flag in the same token, after \<open>=\<close>, or is the next token,
  is replaced by \<open>abs\<close> of it, and every other token stays, so the list keeps its
  length. \<open>abs\<close> leaves a value with the prefix \<open>__BAZEL_\<close> as it is, and
  makes any other value absolute: an absolute value is cleaned, a relative one is joined
  to the working directory. The example of the specification holds.
\<close>

theorem absArgs_absolutizes_flag_values:
  "absArgs getwd args flags = absolutized getwd flags args \<and>
   length (absArgs getwd args flags) = length args \<and>
   (strings_HasPrefix v ''__BAZEL_'' \<longrightarrow> abs' getwd v = v) \<and>
   (\<not> strings_HasPrefix v ''__BAZEL_'' \<and> filepath_IsAbs wd \<longrightarrow>
      abs' (Inr wd) v = (if filepath_IsAbs v then filepath_Clean v else filepath_Join wd v) \<and>
      filepath_IsAbs (abs' (Inr wd) v)) \<and>
   absArgs (Inr ''/abs'') [''-I'', ''rel/path'', ''-Lrel2'', ''__BAZEL_XCODE/foo''] [''-I'', ''-L''] =
     [''-I'', ''/abs/rel/path'', ''-L/abs/rel2'', ''__BAZEL_XCODE/foo'']"
proof (intro conjI)
  show e: "absArgs getwd args flags = absolutized getwd flags args"
    unfolding absArgs_def using absArgs_from_absolutized [of 0 args getwd flags False] by simp
  show "length (absArgs getwd args flags) = length args"
    unfolding absArgs_def by (rule length_absArgs_from)
  show "strings_HasPrefix v ''__BAZEL_'' \<longrightarrow> abs' getwd v = v"
    by (simp add: abs'_def)
  show "\<not> strings_HasPrefix v ''__BAZEL_'' \<and> filepath_IsAbs wd \<longrightarrow>
      abs' (Inr wd) v = (if filepath_IsAbs v then filepath_Clean v else filepath_Join wd v) \<and>
      filepath_IsAbs (abs' (Inr wd) v)"
    by (simp add: abs'_def filepath_Abs_def IsAbs_Clean IsAbs_Join)
  show "absArgs (Inr ''/abs'') [''-I'', ''rel/path'', ''-Lrel2'', ''__BAZEL_XCODE/foo''] [''-I'', ''-L''] =
     [''-I'', ''/abs/rel/path'', ''-L/abs/rel2'', ''__BAZEL_XCODE/foo'']"
    by code_simp
qed

theorem absArgs_absolutizes_flag_values_witness:
  "abs' (Inr ''/abs'') ''__BAZEL_XCODE/foo'' = ''__BAZEL_XCODE/foo'' \<and>
   abs' (Inr ''/abs'') ''rel/path'' = ''/abs/rel/path'' \<and>
   filepath_IsAbs ''/abs/rel/path''"
proof -
  have s: "strings_HasPrefix ''__BAZEL_XCODE/foo'' ''__BAZEL_''"
    by (simp add: strings_HasPrefix_def)
  have n: "\<not> strings_HasPrefix ''rel/path'' ''__BAZEL_'' \<and> filepath_IsAbs ''/abs''"
    by (simp add: strings_HasPrefix_def filepath_IsAbs_def)
  have j: "filepath_Join ''/abs'' ''rel/path'' = ''/abs/rel/path''"
    by code_simp
  have r: "\<not> filepath_IsAbs ''rel/path''"
    by (simp add: strings_HasPrefix_def filepath_IsAbs_def)
  from absArgs_absolutizes_flag_values [of "Inr ''/abs''" "[]" "[]" "''__BAZEL_XCODE/foo''" "''/abs''"] s
  have 1: "abs' (Inr ''/abs'') ''__BAZEL_XCODE/foo'' = ''__BAZEL_XCODE/foo''"
    by blast
  from absArgs_absolutizes_flag_values [of "Inr ''/abs''" "[]" "[]" "''rel/path''" "''/abs''"] n
  have 2: "abs' (Inr ''/abs'') ''rel/path'' =
      (if filepath_IsAbs ''rel/path'' then filepath_Clean ''rel/path''
       else filepath_Join ''/abs'' ''rel/path'') \<and>
     filepath_IsAbs (abs' (Inr ''/abs'') ''rel/path'')"
    by blast
  from 2 r j have 3: "abs' (Inr ''/abs'') ''rel/path'' = ''/abs/rel/path''"
    by simp
  from 2 have "filepath_IsAbs (abs' (Inr ''/abs'') ''rel/path'')" ..
  then have 4: "filepath_IsAbs ''/abs/rel/path''"
    unfolding 3 .
  from 1 3 4 show ?thesis by blast
qed

section \<open>Properties of the work directory\<close>

lemma fs_get_put:
  "fs_get (fs_put p n fs) q = (if q = [] then Some Directory else if q = p then Some n else fs_get fs q)"
  by (simp add: fs_get_def fs_put_def update_conv')

lemma map_of_filter_key:
  "map_of (filter (\<lambda>(k, v). P k) xs) k = (if P k then map_of xs k else None)"
  by (induction xs) auto

lemma fs_get_RemoveAll:
  assumes "name \<noteq> []" and "path_elems name \<noteq> []"
  shows "fs_get (snd (os_RemoveAll name fs)) q =
         (if prefix (path_elems name) q then None else fs_get fs q)"
proof -
  have "snd (os_RemoveAll name fs) = filter (\<lambda>(k, v). \<not> prefix (path_elems name) k) fs"
    using assms by (simp add: os_RemoveAll_def Let_def)
  then show ?thesis
    using assms(2) by (auto simp: fs_get_def map_of_filter_key)
qed

lemma os_Mkdir_ok:
  assumes "os_Mkdir name fs = (None, fs')"
  shows "name \<noteq> [] \<and> path_elems name \<noteq> [] \<and> fs_get fs (path_elems name) = None \<and>
         fs' = fs_put (path_elems name) Directory fs"
proof -
  from assms have 1: "name \<noteq> []" and 2: "fs_get fs (path_elems name) = None"
    and 3: "fs' = fs_put (path_elems name) Directory fs"
    by (auto simp: os_Mkdir_def Let_def split: if_splits option.splits)
  from 2 have "path_elems name \<noteq> []" by (auto simp: fs_get_def)
  with 1 2 3 show ?thesis by blast
qed

lemma TempDir_try_Inr:
  "TempDir_try dir pre rs fs = (Inr p, fs') \<Longrightarrow>
   \<exists>r \<in> set rs. p = filepath_Join dir (pre @ r) \<and> os_Mkdir p fs = (None, fs')"
proof (induction rs)
  case Nil
  then show ?case by simp
next
  case (Cons r rs)
  obtain err fs1 where m: "os_Mkdir (filepath_Join dir (pre @ r)) fs = (err, fs1)"
    by (cases "os_Mkdir (filepath_Join dir (pre @ r)) fs")
  show ?case
  proof (cases err)
    case None
    with Cons.prems m show ?thesis by (simp add: Let_def)
  next
    case (Some e)
    show ?thesis
    proof (cases "e = EEXIST")
      case True
      with Cons.prems m Some have "TempDir_try dir pre rs fs = (Inr p, fs')"
        by (simp add: Let_def)
      from Cons.IH [OF this] show ?thesis by auto
    next
      case False
      with Cons.prems m Some show ?thesis
        by (cases e) (simp_all add: Let_def)
    qed
  qed
qed

lemma TempDir_try_Inl:
  "TempDir_try dir pre rs fs = (Inl e, fs') \<Longrightarrow> fs' = fs"
proof (induction rs)
  case Nil
  then show ?case by simp
next
  case (Cons r rs)
  obtain err fs1 where m: "os_Mkdir (filepath_Join dir (pre @ r)) fs = (err, fs1)"
    by (cases "os_Mkdir (filepath_Join dir (pre @ r)) fs")
  show ?case
  proof (cases err)
    case None
    with Cons.prems m show ?thesis by (simp add: Let_def)
  next
    case (Some e')
    show ?thesis
    proof (cases "e' = EEXIST")
      case True
      with Cons.prems m Some have "TempDir_try dir pre rs fs = (Inl e, fs')"
        by (simp add: Let_def)
      from Cons.IH [OF this] show ?thesis .
    next
      case False
      with Cons.prems m Some show ?thesis
        by (cases e') (simp_all add: Let_def)
    qed
  qed
qed

text \<open>
  Claim C8, as amended. A call of \<open>workDir\<close> on a context without a work
  directory that succeeds has created one directory, which did not exist before, named
  \<open>rules_go_work-\<close> and a random suffix in the directory for temporary files; it
  records the path in the context and returns it with a cleanup that removes the
  directory and all below it, or that does nothing when the context preserves the work
  directory. Every later call returns the recorded path and changes nothing, and the
  cleanup it returns does nothing. A failed call returns the empty path, a cleanup that
  does nothing, and leaves the file system as it was.
\<close>

theorem workDir_created_once_cleanup_by_creator:
  "(workDirPath e = [] \<and> workDir tmp rands e fs = ((p, c, None), e', fs') \<longrightarrow>
      (\<exists>r \<in> set rands. p = filepath_Join tmp (''rules_go_work-'' @ r)) \<and>
      p \<noteq> [] \<and> e' = e\<lparr>workDirPath := p\<rparr> \<and>
      fs_get fs (path_elems p) = None \<and>
      fs_get fs' (path_elems p) = Some Directory \<and>
      (\<forall>q. q \<noteq> path_elems p \<longrightarrow> fs_get fs' q = fs_get fs q) \<and>
      (shouldPreserveWorkDir e \<longrightarrow> run_cleanup c e' fs2 = fs2) \<and>
      (\<not> shouldPreserveWorkDir e \<longrightarrow>
         (\<forall>q. fs_get (run_cleanup c e' fs2) q =
               (if prefix (path_elems p) q then None else fs_get fs2 q)))) \<and>
   (workDirPath e \<noteq> [] \<longrightarrow>
      workDir tmp rands e fs = ((workDirPath e, DoNothing, None), e, fs) \<and>
      run_cleanup DoNothing e fs2 = fs2) \<and>
   (workDir tmp rands e fs = ((p, c, Some err), e', fs') \<longrightarrow>
      p = [] \<and> c = DoNothing \<and> workDirPath e' = [] \<and> fs' = fs)"
proof (intro conjI impI)
  assume a: "workDirPath e = [] \<and> workDir tmp rands e fs = ((p, c, None), e', fs')"
  then have t: "TempDir_try tmp ''rules_go_work-'' rands fs = (Inr p, fs')"
    and e': "e' = e\<lparr>workDirPath := p\<rparr>"
    and c: "c = (if shouldPreserveWorkDir e then DoNothing else RemoveWorkDir)"
    by (auto simp: workDir_def ioutil_TempDir_def Let_def split: prod.splits sum.splits)
  from TempDir_try_Inr [OF t] obtain r where r: "r \<in> set rands"
    "p = filepath_Join tmp (''rules_go_work-'' @ r)" "os_Mkdir p fs = (None, fs')"
    by blast
  from os_Mkdir_ok [OF r(3)] have p: "p \<noteq> []" "path_elems p \<noteq> []"
    "fs_get fs (path_elems p) = None" "fs' = fs_put (path_elems p) Directory fs"
    by blast+
  show "\<exists>r \<in> set rands. p = filepath_Join tmp (''rules_go_work-'' @ r)"
    using r by blast
  show "p \<noteq> []" by fact
  show "e' = e\<lparr>workDirPath := p\<rparr>" by fact
  show "fs_get fs (path_elems p) = None" by fact
  show "fs_get fs' (path_elems p) = Some Directory"
    using p by (simp add: fs_get_put)
  show "\<forall>q. q \<noteq> path_elems p \<longrightarrow> fs_get fs' q = fs_get fs q"
    using p(4) by (simp add: fs_get_put) (simp add: fs_get_def)
  show "run_cleanup c e' fs2 = fs2" if "shouldPreserveWorkDir e"
    using that c by simp
  show "\<forall>q. fs_get (run_cleanup c e' fs2) q =
               (if prefix (path_elems p) q then None else fs_get fs2 q)"
    if "\<not> shouldPreserveWorkDir e"
    using that c e' fs_get_RemoveAll [OF p(1,2)] by simp
next
  assume "workDirPath e \<noteq> []"
  then show "workDir tmp rands e fs = ((workDirPath e, DoNothing, None), e, fs)"
    by (simp add: workDir_def)
next
  show "run_cleanup DoNothing e fs2 = fs2" by simp
next
  assume a: "workDir tmp rands e fs = ((p, c, Some err), e', fs')"
  then have n: "workDirPath e = []"
    by (auto simp: workDir_def split: if_splits)
  with a have s: "p = []" "c = DoNothing" "workDirPath e' = []"
    and t: "TempDir_try tmp ''rules_go_work-'' rands fs = (Inl err, fs')"
    by (auto simp: workDir_def ioutil_TempDir_def Let_def split: prod.splits sum.splits)
  from TempDir_try_Inl [OF t] have "fs' = fs" .
  with s show "p = []" "c = DoNothing" "workDirPath e' = []" "fs' = fs"
    by simp_all
qed

lemma first_call_value:
  "first_call =
     ((''/tmp/rules_go_work-456'', RemoveWorkDir, None),
      envFlags\<lparr>workDirPath := ''/tmp/rules_go_work-456''\<rparr>,
      example_tmp @ [([''tmp'', ''rules_go_work-456''], Directory)])"
  by code_simp

theorem workDir_created_once_cleanup_by_creator_witness:
  "fs_get example_tmp [''tmp'', ''rules_go_work-456''] = None \<and>
   fs_get (snd (snd first_call)) [''tmp'', ''rules_go_work-456''] = Some Directory \<and>
   fs_get (run_cleanup (fst (snd (fst first_call))) (fst (snd first_call)) (snd (snd first_call)))
      [''tmp'', ''rules_go_work-456''] = None \<and>
   second_call =
     ((''/tmp/rules_go_work-456'', DoNothing, None), fst (snd first_call), snd (snd first_call))"
proof -
  let ?p = "''/tmp/rules_go_work-456''"
  let ?e1 = "envFlags\<lparr>workDirPath := ?p\<rparr>"
  let ?fs1 = "example_tmp @ [([''tmp'', ''rules_go_work-456''], Directory)]"
  have pe: "path_elems ?p = [''tmp'', ''rules_go_work-456'']"
    by code_simp
  have h1: "workDirPath envFlags = [] \<and>
      workDir ''/tmp'' [''123'', ''456''] envFlags example_tmp = ((?p, RemoveWorkDir, None), ?e1, ?fs1)"
    using first_call_value by (simp add: first_call_def envFlags_def)
  have np: "\<not> shouldPreserveWorkDir envFlags"
    by (simp add: envFlags_def)
  note t1 = workDir_created_once_cleanup_by_creator
    [where e = envFlags and tmp = "''/tmp''" and rands = "[''123'', ''456'']" and fs = example_tmp
       and p = ?p and c = RemoveWorkDir and e' = ?e1 and fs' = ?fs1 and ?fs2.0 = ?fs1]
  from t1 h1 have a: "fs_get example_tmp (path_elems ?p) = None"
    and b: "fs_get ?fs1 (path_elems ?p) = Some Directory"
    and c: "\<not> shouldPreserveWorkDir envFlags \<longrightarrow>
         (\<forall>q. fs_get (run_cleanup RemoveWorkDir ?e1 ?fs1) q =
               (if prefix (path_elems ?p) q then None else fs_get ?fs1 q))"
    by blast+
  from c np have d: "fs_get (run_cleanup RemoveWorkDir ?e1 ?fs1) (path_elems ?p) = None"
    by simp
  have h2: "workDirPath ?e1 \<noteq> []"
    by simp
  note t2 = workDir_created_once_cleanup_by_creator
    [where e = ?e1 and tmp = "''/tmp''" and rands = "[''123'', ''456'']" and fs = ?fs1]
  from t2 h2 have s: "workDir ''/tmp'' [''123'', ''456''] ?e1 ?fs1 =
      ((workDirPath ?e1, DoNothing, None), ?e1, ?fs1)"
    by blast
  show ?thesis
    using a b d s unfolding pe second_call_def first_call_value by simp
qed

text \<open>
  The claim C8 as stated fails: the cleanup returned by a second call does nothing,
  although the context does not preserve the work directory.
\<close>

theorem workDir_later_cleanup_counterexample:
  "fst first_call = (''/tmp/rules_go_work-456'', RemoveWorkDir, None) \<and>
   fst second_call = (''/tmp/rules_go_work-456'', DoNothing, None) \<and>
   \<not> shouldPreserveWorkDir (fst (snd second_call)) \<and>
   fs_get (run_cleanup (fst (snd (fst second_call))) (fst (snd second_call)) (snd (snd second_call)))
     (path_elems ''/tmp/rules_go_work-456'') = Some Directory"
  by code_simp

section \<open>Replication of a file system tree\<close>

lemma join_Cons: "xs \<noteq> [] \<Longrightarrow> join sep (x # xs) = x @ sep @ join sep xs"
  by (cases xs) simp_all

lemma join_append:
  "xs \<noteq> [] \<Longrightarrow> ys \<noteq> [] \<Longrightarrow> join sep (xs @ ys) = join sep xs @ sep @ join sep ys"
proof (induction xs)
  case Nil
  then show ?case by simp
next
  case (Cons x xs)
  show ?case
  proof (cases "xs = []")
    case True
    then show ?thesis using Cons.prems by (simp add: join_Cons)
  next
    case False
    then show ?thesis using Cons by (simp add: join_Cons)
  qed
qed

lemma split_on_no_sep: "sep \<notin> set c \<Longrightarrow> split_on sep c = [c]"
  by (induction c) auto

lemma split_on_append_sep:
  "sep \<notin> set c \<Longrightarrow> split_on sep (c @ sep # rest) = c # split_on sep rest"
  by (induction c) auto

lemma split_on_join:
  "xs \<noteq> [] \<Longrightarrow> \<forall>x \<in> set xs. CHR ''/'' \<notin> set x \<Longrightarrow>
   split_on (CHR ''/'') (join ''/'' xs) = xs"
proof (induction xs)
  case Nil
  then show ?case by simp
next
  case (Cons x xs)
  show ?case
  proof (cases "xs = []")
    case True
    then show ?thesis using Cons.prems by (simp add: split_on_no_sep)
  next
    case False
    then show ?thesis using Cons by (simp add: join_Cons split_on_append_sep)
  qed
qed

lemma clean_elems_proper:
  "list_all proper_name xs \<Longrightarrow> clean_elems r out xs = rev out @ xs"
  by (induction xs arbitrary: out) (auto simp: proper_name_def)

lemma proper_no_sep: "list_all proper_name xs \<Longrightarrow> \<forall>x \<in> set xs. CHR ''/'' \<notin> set x"
  by (auto simp: list_all_iff proper_name_def)

lemma join_not_Nil: "xs \<noteq> [] \<Longrightarrow> list_all proper_name xs \<Longrightarrow> join ''/'' xs \<noteq> []"
  by (cases xs; cases "tl xs") (auto simp: proper_name_def)

lemma IsAbs_iff: "filepath_IsAbs p = (p \<noteq> [] \<and> hd p = CHR ''/'')"
  by (cases p) (auto simp: filepath_IsAbs_def strings_HasPrefix_def)

lemma hd_join: "x \<noteq> [] \<Longrightarrow> hd (join sep (x # xs)) = hd x"
  by (cases xs) auto

lemma join_not_abs:
  assumes "xs \<noteq> []" "list_all proper_name xs"
  shows "\<not> filepath_IsAbs (join ''/'' xs)"
proof -
  obtain x xs' where x: "xs = x # xs'" using assms(1) by (cases xs) auto
  with assms(2) have p: "x \<noteq> []" "CHR ''/'' \<notin> set x"
    by (auto simp: proper_name_def)
  then have "hd x \<noteq> CHR ''/''" by (cases x) auto
  then show ?thesis
    unfolding IsAbs_iff x using hd_join [OF p(1)] by simp
qed

lemma path_elems_join:
  "xs \<noteq> [] \<Longrightarrow> list_all proper_name xs \<Longrightarrow> path_elems (join ''/'' xs) = xs"
  by (simp add: path_elems_def split_on_join proper_no_sep clean_elems_proper)

lemma Clean_join:
  "xs \<noteq> [] \<Longrightarrow> list_all proper_name xs \<Longrightarrow> filepath_Clean (join ''/'' xs) = join ''/'' xs"
  by (simp add: filepath_Clean_def Let_def join_not_abs split_on_join proper_no_sep
      clean_elems_proper)

lemma Join_join:
  assumes "xs \<noteq> []" "list_all proper_name xs" "ys \<noteq> []" "list_all proper_name ys"
  shows "filepath_Join (join ''/'' xs) (join ''/'' ys) = join ''/'' (xs @ ys)"
proof -
  have "join ''/'' xs @ ''/'' @ join ''/'' ys = join ''/'' (xs @ ys)"
    using assms by (simp add: join_append)
  moreover have "list_all proper_name (xs @ ys)" "xs @ ys \<noteq> []"
    using assms by simp_all
  ultimately show ?thesis
    using assms by (simp add: filepath_Join_def join_not_Nil Clean_join)
qed

lemma Join_name:
  assumes "xs \<noteq> []" "list_all proper_name xs" "proper_name c"
  shows "filepath_Join (join ''/'' xs) c = join ''/'' (xs @ [c])"
  using Join_join [OF assms(1,2), of "[c]"] assms(3) by simp

lemma clean_elems_append:
  "clean_elems r out (xs @ ys) = clean_elems r (rev (clean_elems r out xs)) ys"
  by (induction xs arbitrary: out) (auto split: list.splits)

lemma split_on_snoc_sep: "split_on sep (p @ [sep]) = split_on sep p @ [[]]"
proof (induction p)
  case Nil
  show ?case by simp
next
  case (Cons a p)
  obtain x xs where x: "split_on sep p = x # xs"
    using split_on_not_Nil [of sep p] by (cases "split_on sep p") auto
  show ?case using Cons x by simp
qed

lemma last_slash_prefix:
  assumes "CHR ''/'' \<notin> set c"
  shows "rev (dropWhile (\<lambda>x. x \<noteq> CHR ''/'') (rev (a @ CHR ''/'' # c))) = a @ ''/''"
proof -
  have "dropWhile (\<lambda>x. x \<noteq> CHR ''/'') (rev c @ CHR ''/'' # rev a) = CHR ''/'' # rev a"
    using assms by (subst dropWhile_append3) auto
  then show ?thesis by simp
qed

lemma no_slash_prefix:
  assumes "CHR ''/'' \<notin> set c"
  shows "rev (dropWhile (\<lambda>x. x \<noteq> CHR ''/'') (rev c)) = []"
proof -
  have "dropWhile (\<lambda>x. x \<noteq> CHR ''/'') (rev c) = []"
    using assms by (auto simp: dropWhile_eq_Nil_conv)
  then show ?thesis by simp
qed

lemma Dir_join:
  assumes "list_all proper_name ys" "proper_name c"
  shows "filepath_Dir (join ''/'' (ys @ [c])) = (if ys = [] then ''.'' else join ''/'' ys)"
proof (cases "ys = []")
  case True
  have "CHR ''/'' \<notin> set c" using assms(2) by (simp add: proper_name_def)
  from no_slash_prefix [OF this] have "filepath_Dir c = filepath_Clean []"
    by (simp only: filepath_Dir_def)
  then show ?thesis
    using True by (simp add: filepath_Clean_def filepath_IsAbs_def
        strings_HasPrefix_def Let_def)
next
  case False
  have c: "CHR ''/'' \<notin> set c" using assms(2) by (simp add: proper_name_def)
  have j: "join ''/'' (ys @ [c]) = join ''/'' ys @ CHR ''/'' # c"
    using False by (simp add: join_append)
  have na: "\<not> filepath_IsAbs (join ''/'' ys @ ''/'')"
    using join_not_abs [OF False assms(1)] join_not_Nil [OF False assms(1)]
    by (simp add: IsAbs_iff)
  have sp: "split_on (CHR ''/'') (join ''/'' ys @ ''/'') = ys @ [[]]"
    using split_on_snoc_sep [of "CHR ''/''" "join ''/'' ys"]
    by (simp add: split_on_join [OF False proper_no_sep [OF assms(1)]])
  have ce: "clean_elems False [] (ys @ [[]]) = ys"
    by (simp add: clean_elems_append clean_elems_proper [OF assms(1)])
  show ?thesis
    unfolding filepath_Dir_def j last_slash_prefix [OF c]
    using False na by (simp add: filepath_Clean_def Let_def sp ce)
qed

lemma path_elems_dot: "path_elems ''.'' = []"
  by (simp add: path_elems_def)

lemma path_elems_Dir_join:
  assumes "xs \<noteq> []" "list_all proper_name xs"
  shows "path_elems (filepath_Dir (join ''/'' xs)) = butlast xs \<and> filepath_Dir (join ''/'' xs) \<noteq> []"
proof -
  obtain ys c where x: "xs = ys @ [c]"
    using assms(1) by (metis append_butlast_last_id)
  with assms(2) have p: "list_all proper_name ys" "proper_name c" by simp_all
  show ?thesis
    unfolding x Dir_join [OF p]
    using p(1) by (simp add: path_elems_dot path_elems_join join_not_Nil)
qed

lemma strip_common_Nil: "strip_common [] r = ([], r)"
  by (cases r) simp_all

lemma strip_common_prefix: "strip_common s (s @ r) = ([], r)"
  by (induction s) (simp_all add: strip_common_Nil)

lemma Rel_join:
  assumes "s \<noteq> []" "list_all proper_name s" "r \<noteq> []" "list_all proper_name r"
  shows "filepath_Rel (join ''/'' s) (join ''/'' (s @ r)) = Inr (join ''/'' r)"
proof -
  have sr: "s @ r \<noteq> []" "list_all proper_name (s @ r)" using assms by simp_all
  have ne: "join ''/'' (s @ r) \<noteq> join ''/'' s"
  proof
    assume "join ''/'' (s @ r) = join ''/'' s"
    then have "path_elems (join ''/'' (s @ r)) = path_elems (join ''/'' s)" by simp
    then show False
      using assms by (simp add: path_elems_join [OF sr] path_elems_join [OF assms(1,2)])
  qed
  have e1: "clean_elems False [] (split_on (CHR ''/'') (join ''/'' s)) = s"
    by (simp add: split_on_join [OF assms(1) proper_no_sep [OF assms(2)]]
        clean_elems_proper [OF assms(2)])
  have e2: "clean_elems False [] (split_on (CHR ''/'') (join ''/'' (s @ r))) = s @ r"
    by (simp only: split_on_join [OF sr(1) proper_no_sep [OF sr(2)]]
        clean_elems_proper [OF sr(2)]) simp
  show ?thesis
    unfolding filepath_Rel_def Let_def Clean_join [OF assms(1,2)] Clean_join [OF sr]
    using ne join_not_abs [OF assms(1,2)] join_not_abs [OF sr]
    by (simp only: e1 e2 strip_common_prefix) simp
qed

lemma fs_get_Nil [simp]: "fs_get fs [] = Some Directory"
  by (simp add: fs_get_def)

lemma fs_get_delete:
  "fs_get (AList.delete p fs) q =
     (if q = [] then Some Directory else if q = p then None else fs_get fs q)"
  by (simp add: fs_get_def delete_conv')

lemma mkdir_all_ok:
  assumes "\<forall>q. prefix q p \<longrightarrow> fs_get fs q = None \<or> fs_get fs q = Some Directory"
  shows "\<exists>fs'. mkdir_all (rev p) fs = (None, fs') \<and> fs_get fs' p = Some Directory \<and>
           (\<forall>q. fs_get fs' q = fs_get fs q \<or>
                (prefix q p \<and> fs_get fs q = None \<and> fs_get fs' q = Some Directory))"
  using assms
proof (induction p rule: rev_induct)
  case Nil
  show ?case by simp
next
  case (snoc c p)
  have pc: "fs_get fs (p @ [c]) = None \<or> fs_get fs (p @ [c]) = Some Directory"
    using snoc.prems by simp
  show ?case
  proof (cases "fs_get fs (p @ [c])")
    case (Some n)
    with pc have "n = Directory" by simp
    with Some show ?thesis by simp
  next
    case None
    have "\<forall>q. prefix q p \<longrightarrow> fs_get fs q = None \<or> fs_get fs q = Some Directory"
      using snoc.prems by (simp add: prefix_snoc)
    from snoc.IH [OF this] obtain fs1 where
      m: "mkdir_all (rev p) fs = (None, fs1)" and
      d: "fs_get fs1 p = Some Directory" and
      o: "\<forall>q. fs_get fs1 q = fs_get fs q \<or>
                (prefix q p \<and> fs_get fs q = None \<and> fs_get fs1 q = Some Directory)"
      by blast
    have "mkdir_all (rev (p @ [c])) fs = (None, fs_put (p @ [c]) Directory fs1)"
      using None m by simp
    moreover have "fs_get (fs_put (p @ [c]) Directory fs1) (p @ [c]) = Some Directory"
      by (simp add: fs_get_put)
    moreover have "fs_get (fs_put (p @ [c]) Directory fs1) q = fs_get fs q \<or>
                (prefix q (p @ [c]) \<and> fs_get fs q = None \<and>
                 fs_get (fs_put (p @ [c]) Directory fs1) q = Some Directory)" for q
      using o [rule_format, of q] None by (auto simp: fs_get_put prefix_snoc)
    ultimately show ?thesis by blast
  qed
qed

lemma os_MkdirAll_ok:
  assumes "name \<noteq> []"
    and "\<forall>q. prefix q (path_elems name) \<longrightarrow> fs_get fs q = None \<or> fs_get fs q = Some Directory"
  shows "\<exists>fs'. os_MkdirAll name fs = (None, fs') \<and>
           fs_get fs' (path_elems name) = Some Directory \<and>
           (\<forall>q. fs_get fs' q = fs_get fs q \<or>
                (prefix q (path_elems name) \<and> fs_get fs q = None \<and>
                 fs_get fs' q = Some Directory))"
  using mkdir_all_ok [OF assms(2)] assms(1) by (simp add: os_MkdirAll_def)

lemma os_Remove_file_or_none:
  assumes "name \<noteq> []" "path_elems name \<noteq> []"
    and "fs_get fs (path_elems name) = None \<or>
         (\<exists>c m. fs_get fs (path_elems name) = Some (RegularFile c m))"
  shows "fs_get (snd (os_Remove name fs)) q =
           (if q = path_elems name then None else fs_get fs q)"
  using assms by (auto simp: os_Remove_def Let_def fs_get_delete)

lemma createFile_new:
  assumes "name \<noteq> []" "path_elems name \<noteq> []"
    and "fs_get fs (path_elems name) = None"
    and "fs_get fs (butlast (path_elems name)) = Some Directory"
  shows "\<exists>fs'. createFile (Inr data) stat name fs = (None, fs') \<and>
           (\<forall>q. fs_get fs' q =
              (if q = path_elems name then Some (RegularFile data (Mode stat)) else fs_get fs q))"
proof -
  let ?p = "path_elems name"
  have c: "os_Create name fs = (None, fs_put ?p (RegularFile [] 438) fs)"
    using assms by (simp add: os_Create_def Let_def parent_error_def)
  have w: "write_contents name data (fs_put ?p (RegularFile [] 438) fs) =
        fs_put ?p (RegularFile data 438) (fs_put ?p (RegularFile [] 438) fs)"
    using assms(2) by (simp add: write_contents_def fs_get_put)
  have ch: "os_Chmod name (Mode stat) (fs_put ?p (RegularFile data 438) (fs_put ?p (RegularFile [] 438) fs)) =
      (None, fs_put ?p (RegularFile data (Mode stat))
               (fs_put ?p (RegularFile data 438) (fs_put ?p (RegularFile [] 438) fs)))"
    using assms(2) by (simp add: os_Chmod_def fs_get_put)
  show ?thesis
    using assms(2) by (simp add: createFile_def c w ch fs_get_put)
qed

lemma walk_links_dirs:
  assumes "list_all proper_name xs"
    and "\<forall>ys. strict_prefix ys xs \<longrightarrow> fs_get fs (cur @ ys) = Some Directory"
    and "fs_get fs (cur @ xs) = Some Directory \<or> (\<exists>c m. fs_get fs (cur @ xs) = Some (RegularFile c m))"
  shows "walk_links n fs cur xs = Inr (cur @ xs)"
  using assms
proof (induction xs arbitrary: cur)
  case Nil
  show ?case by simp
next
  case (Cons x xs)
  have ps: "list_all proper_name xs" and "proper_name x"
    using Cons.prems(1) by simp_all
  then have p: "x \<noteq> []" "x \<noteq> ''.''" "x \<noteq> ''..''"
    by (simp_all add: proper_name_def)
  show ?case
  proof (cases "xs = []")
    case True
    with Cons.prems(3) p show ?thesis by auto
  next
    case False
    then have "strict_prefix [x] (x # xs)" by (simp add: strict_prefix_def)
    with Cons.prems(2) have d: "fs_get fs (cur @ [x]) = Some Directory" by blast
    have "\<forall>ys. strict_prefix ys xs \<longrightarrow> fs_get fs ((cur @ [x]) @ ys) = Some Directory"
      using Cons.prems(2) by (auto simp: strict_prefix_def)
    moreover have "fs_get fs ((cur @ [x]) @ xs) = Some Directory \<or>
        (\<exists>c m. fs_get fs ((cur @ [x]) @ xs) = Some (RegularFile c m))"
      using Cons.prems(3) by simp
    ultimately have "walk_links n fs (cur @ [x]) xs = Inr ((cur @ [x]) @ xs)"
      using Cons.IH [OF ps] by blast
    with d p show ?thesis by simp
  qed
qed

lemma fs_children_set:
  "set (fs_children fs p) = {c. fs_get fs (p @ [c]) \<noteq> None}"
proof (intro set_eqI iffI)
  fix c assume "c \<in> set (fs_children fs p)"
  then obtain q n where q: "(q, n) \<in> set fs" "q \<noteq> []" "butlast q = p" "c = last q"
    by (auto simp: fs_children_def)
  then have "q = p @ [c]" by (metis append_butlast_last_id)
  moreover have "map_of fs q \<noteq> None"
    using q(1) by (metis map_of_eq_None_iff fst_conv image_eqI)
  ultimately show "c \<in> {c. fs_get fs (p @ [c]) \<noteq> None}"
    by (simp add: fs_get_def)
next
  fix c assume "c \<in> {c. fs_get fs (p @ [c]) \<noteq> None}"
  then obtain n where "map_of fs (p @ [c]) = Some n"
    by (auto simp: fs_get_def)
  then have "(p @ [c], n) \<in> set fs" by (rule map_of_SomeD)
  then show "c \<in> set (fs_children fs p)"
    by (force simp: fs_children_def)
qed

lemma readDirNames_set:
  "set (readDirNames name fs) = {c. fs_get fs (path_elems name @ [c]) \<noteq> None}"
  by (simp add: readDirNames_def fs_children_set)

lemma kept_refl: "kept d X X"
  by (simp add: kept_def)

lemma kept_trans: "kept d X Y \<Longrightarrow> kept d Y Z \<Longrightarrow> kept d X Z"
  by (auto simp: kept_def)

lemma prefix_appendD:
  "prefix q (d @ r) \<Longrightarrow> strict_prefix q d \<or> (\<exists>r'. q = d @ r' \<and> prefix r' r)"
  by (auto simp: prefix_append strict_prefix_def)

lemma prefix_butlast_strict:
  assumes "prefix r' (butlast r)" "r \<noteq> []"
  shows "strict_prefix r' r"
proof -
  from assms(1) obtain zs where z: "butlast r = r' @ zs" by (auto simp: prefix_def)
  have "r = butlast r @ [last r]" using assms(2) by simp
  then have "r = r' @ (zs @ [last r])" unfolding z by simp
  then have "prefix r' r" "r' \<noteq> r"
    by (auto simp: prefix_def)
  then show ?thesis by (simp add: strict_prefix_def)
qed

lemma disjoint_trees:
  assumes "\<not> prefix s d" "\<not> prefix d s"
  shows "\<not> prefix s (d @ r)" "\<not> prefix d (s @ r)" "s @ r \<noteq> d @ r'"
proof -
  show "\<not> prefix s (d @ r)"
    using assms by (auto simp: prefix_append)
  show "\<not> prefix d (s @ r)"
    using assms by (auto simp: prefix_append)
  show "s @ r \<noteq> d @ r'"
  proof
    assume "s @ r = d @ r'"
    then have "prefix s d \<or> prefix d s"
      by (auto simp: append_eq_append_conv2)
    with assms show False by blast
  qed
qed

text \<open>What one copy does to the file system, and that it keeps the invariant.\<close>

lemma inv_after_copy:
  assumes nd: "\<not> prefix s d" "\<not> prefix d s"
    and ok: "src_ok F s"
    and inv: "mirror_inv F s d X"
    and r: "r \<noteq> []"
    and f: "fs_get F (s @ r) = Some (RegularFile c m)"
    and at: "fs_get X' (d @ r) = Some (RegularFile c m)"
    and eff: "\<forall>q. q \<noteq> d @ r \<longrightarrow>
        fs_get X' q = fs_get X q \<or>
        (prefix q (butlast (d @ r)) \<and> fs_get X q = None \<and> fs_get X' q = Some Directory)"
  shows "mirror_inv F s d X' \<and> kept d X X'"
proof -
  from inv have a: "\<And>q. prefix s q \<or> prefix q s \<Longrightarrow> fs_get X q = fs_get F q"
    and b: "\<And>q. strict_prefix q d \<Longrightarrow> fs_get X q = Some Directory"
    and c: "\<And>r. fs_get X (d @ r) = None \<or> fs_get X (d @ r) = fs_get F (s @ r)"
    by (auto simp: mirror_inv_def)
  have bl: "butlast (d @ r) = d @ butlast r"
    using r by (simp add: butlast_append)
  have anc: "fs_get F q' = Some Directory" if "strict_prefix q' (s @ r)" for q'
  proof -
    have "prefix s (s @ r) \<and> fs_get F (s @ r) \<noteq> None" using f by simp
    with ok have "\<forall>q'. strict_prefix q' (s @ r) \<longrightarrow> fs_get F q' = Some Directory"
      unfolding src_ok_def by blast
    with that show ?thesis by blast
  qed
  have dirs: "fs_get F (s @ r') = Some Directory" if "strict_prefix r' r" for r'
  proof -
    have "strict_prefix (s @ r') (s @ r)" using that by (auto simp: strict_prefix_def)
    then show ?thesis by (rule anc)
  qed
  have sdir: "fs_get F q = Some Directory" if "prefix q s" for q
  proof -
    have "strict_prefix q (s @ r)" using that r by (auto simp: strict_prefix_def prefix_def)
    then show ?thesis by (rule anc)
  qed
  have a': "fs_get X' q = fs_get F q" if q: "prefix s q \<or> prefix q s" for q
  proof -
    have ne: "q \<noteq> d @ r"
    proof
      assume e: "q = d @ r"
      from q show False
      proof
        assume "prefix s q" with e disjoint_trees(1) [OF nd] show False by blast
      next
        assume "prefix q s"
        then have "prefix d s" unfolding e by (auto simp: prefix_def)
        with nd show False by blast
      qed
    qed
    from eff [rule_format, OF ne]
    have "fs_get X' q = fs_get X q \<or> (fs_get X q = None \<and> prefix q (d @ butlast r))"
      unfolding bl by blast
    then show ?thesis
    proof
      assume "fs_get X' q = fs_get X q" with a [OF q] show ?thesis by simp
    next
      assume n: "fs_get X q = None \<and> prefix q (d @ butlast r)"
      from q show ?thesis
      proof
        assume ps: "prefix s q"
        with n have "prefix s (d @ butlast r)" using prefix_order.trans by blast
        with disjoint_trees(1) [OF nd] show ?thesis by blast
      next
        assume "prefix q s"
        from sdir [OF this] a [OF q] n show ?thesis by simp
      qed
    qed
  qed
  have b': "fs_get X' q = Some Directory" if q: "strict_prefix q d" for q
  proof -
    have "q \<noteq> d @ r" using q by (auto simp: strict_prefix_def prefix_def)
    from eff [rule_format, OF this] b [OF q] show ?thesis by auto
  qed
  have c': "fs_get X' (d @ r') = None \<or> fs_get X' (d @ r') = fs_get F (s @ r')" for r'
  proof (cases "r' = r")
    case True
    with at f show ?thesis by simp
  next
    case False
    then have "d @ r' \<noteq> d @ r" by simp
    from eff [rule_format, OF this]
    have "fs_get X' (d @ r') = fs_get X (d @ r') \<or>
        (prefix (d @ r') (d @ butlast r) \<and> fs_get X' (d @ r') = Some Directory)"
      unfolding bl by blast
    then show ?thesis
    proof
      assume "fs_get X' (d @ r') = fs_get X (d @ r')" with c [of r'] show ?thesis by simp
    next
      assume p: "prefix (d @ r') (d @ butlast r) \<and> fs_get X' (d @ r') = Some Directory"
      then have "prefix r' (butlast r)" by simp
      then have "strict_prefix r' r"
        using r by (rule prefix_butlast_strict)
      from dirs [OF this] p show ?thesis by simp
    qed
  qed
  have k: "kept d X X'"
    unfolding kept_def
  proof (intro allI impI)
    fix r' assume n: "fs_get X (d @ r') \<noteq> None"
    show "fs_get X' (d @ r') = fs_get X (d @ r')"
    proof (cases "r' = r")
      case True
      with n c [of r] at f show ?thesis by auto
    next
      case False
      then have "d @ r' \<noteq> d @ r" by simp
      from eff [rule_format, OF this] n show ?thesis by blast
    qed
  qed
  have "mirror_inv F s d X'"
    unfolding mirror_inv_def
  proof (intro conjI allI impI)
    fix q assume "prefix s q \<or> prefix q s"
    then show "fs_get X' q = fs_get F q" by (rule a')
  next
    fix q assume "strict_prefix q d"
    then show "fs_get X' q = Some Directory" by (rule b')
  next
    fix r' show "fs_get X' (d @ r') = None \<or> fs_get X' (d @ r') = fs_get F (s @ r')"
      by (rule c')
  qed
  with k show ?thesis by simp
qed

lemma replicateFile_copy:
  assumes s: "s \<noteq> []" "list_all proper_name s"
    and d: "d \<noteq> []" "list_all proper_name d"
    and nd: "\<not> prefix s d" "\<not> prefix d s"
    and ok: "src_ok F s"
    and inv: "mirror_inv F s d X"
    and r: "r \<noteq> []"
    and f: "fs_get F (s @ r) = Some (RegularFile c m)"
    and cfg: "removeFirst config" "fileMode config = copyMode"
  shows "\<exists>X'. replicateFile (join ''/'' (s @ r)) (join ''/'' (d @ r)) config X = (None, X') \<and>
           mirror_inv F s d X' \<and> kept d X X' \<and>
           fs_get X' (d @ r) = Some (RegularFile c m)"
proof -
  let ?src = "join ''/'' (s @ r)" and ?dst = "join ''/'' (d @ r)"
  from inv have a: "\<And>q. prefix s q \<or> prefix q s \<Longrightarrow> fs_get X q = fs_get F q"
    and b: "\<And>q. strict_prefix q d \<Longrightarrow> fs_get X q = Some Directory"
    and c: "\<And>r. fs_get X (d @ r) = None \<or> fs_get X (d @ r) = fs_get F (s @ r)"
    by (auto simp: mirror_inv_def)
  have srp: "list_all proper_name (s @ r)"
    using ok f unfolding src_ok_def by (metis option.distinct(1) prefixI)
  then have rp: "list_all proper_name r" by simp
  have drp: "list_all proper_name (d @ r)" "d @ r \<noteq> []"
    using d rp by simp_all
  have srn: "s @ r \<noteq> []" using s by simp
  have anc: "fs_get F q' = Some Directory" if "strict_prefix q' (s @ r)" for q'
  proof -
    have "prefix s (s @ r) \<and> fs_get F (s @ r) \<noteq> None" using f by simp
    with ok have "\<forall>q'. strict_prefix q' (s @ r) \<longrightarrow> fs_get F q' = Some Directory"
      unfolding src_ok_def by blast
    with that show ?thesis by blast
  qed
  have bl: "butlast (d @ r) = d @ butlast r"
    using r by (simp add: butlast_append)
  have pe_dst: "path_elems ?dst = d @ r" and dst_ne: "?dst \<noteq> []"
    using drp by (simp_all add: path_elems_join join_not_Nil)
  have pe_src: "path_elems ?src = s @ r" and src_ne: "?src \<noteq> []"
    using srp srn by (simp_all add: path_elems_join join_not_Nil)
  have pe_dir: "path_elems (filepath_Dir ?dst) = d @ butlast r" and dir_ne: "filepath_Dir ?dst \<noteq> []"
    using path_elems_Dir_join [OF drp(2,1)] bl by simp_all
  \<comment> \<open>the directories above the destination\<close>
  have pre: "fs_get X q = None \<or> fs_get X q = Some Directory" if "prefix q (d @ butlast r)" for q
  proof -
    from prefix_appendD [OF that] show ?thesis
    proof
      assume "strict_prefix q d" from b [OF this] show ?thesis by simp
    next
      assume "\<exists>r'. q = d @ r' \<and> prefix r' (butlast r)"
      then obtain r' where q: "q = d @ r'" and p: "prefix r' (butlast r)" by blast
      from prefix_butlast_strict [OF p r] have "strict_prefix (s @ r') (s @ r)"
        by (auto simp: strict_prefix_def)
      from anc [OF this] c [of r'] q show ?thesis by auto
    qed
  qed
  from os_MkdirAll_ok [OF dir_ne] pre obtain X1 where
    m: "os_MkdirAll (filepath_Dir ?dst) X = (None, X1)" and
    m1: "fs_get X1 (d @ butlast r) = Some Directory" and
    m2: "\<forall>q. fs_get X1 q = fs_get X q \<or>
           (prefix q (d @ butlast r) \<and> fs_get X q = None \<and> fs_get X1 q = Some Directory)"
    unfolding pe_dir by blast
  have np: "\<not> prefix (d @ r) (d @ butlast r)"
    using r by (metis append_butlast_last_id prefix_order.dual_order.antisym prefix_snoc
        same_prefix_prefix snoc_eq_iff_butlast prefixI append_Nil2 not_Cons_self2 same_append_eq)
  have x1dst: "fs_get X1 (d @ r) = fs_get X (d @ r)"
    using m2 [rule_format, of "d @ r"] np by blast
  have dst_kind: "fs_get X1 (d @ r) = None \<or> (\<exists>c' m'. fs_get X1 (d @ r) = Some (RegularFile c' m'))"
    using c [of r] f x1dst by auto
  define X2 where "X2 = snd (os_Remove ?dst X1)"
  have x2: "fs_get X2 q = (if q = d @ r then None else fs_get X1 q)" for q
    unfolding X2_def using os_Remove_file_or_none [OF dst_ne, of X1 q] dst_kind drp(2)
    unfolding pe_dst by blast
  have prep: "replicatePrepare ?dst config X = (None, X2)"
    using m cfg(1) by (simp add: replicatePrepare_def Let_def X2_def)
  \<comment> \<open>the source is still where it was\<close>
  have src_same: "fs_get X2 q = fs_get F q" if q: "prefix q (s @ r)" for q
  proof -
    have cmp: "prefix s q \<or> prefix q s"
      using q by (metis prefix_same_cases prefixI)
    have fq: "fs_get F q \<noteq> None"
    proof (cases "q = s @ r")
      case True with f show ?thesis by simp
    next
      case False
      with q have "strict_prefix q (s @ r)" by (simp add: strict_prefix_def)
      from anc [OF this] show ?thesis by simp
    qed
    have "fs_get X q = fs_get F q" using a [OF cmp] .
    moreover have "fs_get X1 q = fs_get X q"
      using m2 [rule_format, of q] fq calculation by auto
    moreover have "q \<noteq> d @ r"
    proof
      assume e: "q = d @ r"
      with q have "prefix (d @ r) (s @ r)" by simp
      then have "prefix d (s @ r)" by (metis prefix_order.trans prefixI)
      with disjoint_trees(2) [OF nd] show False by blast
    qed
    ultimately show ?thesis by (simp add: x2)
  qed
  have wl: "walk_links 255 X2 [] (split_on (CHR ''/'') ?src) = Inr (s @ r)"
  proof -
    have sp: "split_on (CHR ''/'') ?src = s @ r"
      using split_on_join [OF srn proper_no_sep [OF srp]] .
    have "walk_links 255 X2 [] (s @ r) = Inr ([] @ (s @ r))"
    proof (rule walk_links_dirs [OF srp])
      show "\<forall>ys. strict_prefix ys (s @ r) \<longrightarrow> fs_get X2 ([] @ ys) = Some Directory"
        using src_same anc by (auto simp: strict_prefix_def)
      show "fs_get X2 ([] @ s @ r) = Some Directory \<or>
          (\<exists>c m. fs_get X2 ([] @ s @ r) = Some (RegularFile c m))"
        using src_same [of "s @ r"] f by simp
    qed
    then show ?thesis unfolding sp by simp
  qed
  have st: "fs_stat ?src X2 = Inr (RegularFile c m)"
    using wl src_ne src_same [of "s @ r"] f by (simp add: fs_stat_def)
  have stat: "os_Stat ?src X2 = Inr (node_info (RegularFile c m))"
    by (simp add: os_Stat_def st)
  have opn: "os_Open ?src X2 = Inr (Inr c)"
    by (simp add: os_Open_def st)
  \<comment> \<open>the file is created\<close>
  have par: "fs_get X2 (butlast (path_elems ?dst)) = Some Directory"
    unfolding pe_dst bl using m1 np by (simp add: x2)
  have "fs_get X2 (path_elems ?dst) = None"
    unfolding pe_dst by (simp add: x2)
  from createFile_new [OF dst_ne _ this par, of c "node_info (RegularFile c m)"] drp(2)
  obtain X3 where
    cf: "createFile (Inr c) (node_info (RegularFile c m)) ?dst X2 = (None, X3)" and
    x3: "\<forall>q. fs_get X3 q = (if q = d @ r then Some (RegularFile c m) else fs_get X2 q)"
    unfolding pe_dst by auto
  have res: "replicateFile ?src ?dst config X = (None, X3)"
    using cf by (simp add: replicateFile_def prep cfg(2) stat opn)
  have at: "fs_get X3 (d @ r) = Some (RegularFile c m)"
    using x3 by simp
  have eff: "\<forall>q. q \<noteq> d @ r \<longrightarrow>
        fs_get X3 q = fs_get X q \<or>
        (prefix q (butlast (d @ r)) \<and> fs_get X q = None \<and> fs_get X3 q = Some Directory)"
  proof (intro allI impI)
    fix q assume ne: "q \<noteq> d @ r"
    then have "fs_get X3 q = fs_get X1 q" using x3 x2 by simp
    with m2 [rule_format, of q] show "fs_get X3 q = fs_get X q \<or>
        (prefix q (butlast (d @ r)) \<and> fs_get X q = None \<and> fs_get X3 q = Some Directory)"
      unfolding bl by auto
  qed
  from inv_after_copy [OF nd ok inv r f at eff] res at show ?thesis by blast
qed

lemma copied_below_kept:
  "copied_below F s d r X \<Longrightarrow> kept d X X' \<Longrightarrow> copied_below F s d r X'"
  unfolding copied_below_def kept_def by (metis option.distinct(1))

lemma walk_names_copies:
  assumes st: "setting F s d config L"
    and ws: "walk_spec F s d config L n"
    and inv: "mirror_inv F s d X"
    and names: "\<forall>c \<in> set names. fs_get F (s @ r @ [c]) \<noteq> None"
    and bound: "L < n + length (s @ r) + 1"
  shows "\<exists>X'. walk_names n (join ''/'' (s @ r)) names
                 (replicateDir_walkFn (join ''/'' s) (join ''/'' d) config) X = Some (None, X') \<and>
              mirror_inv F s d X' \<and> kept d X X' \<and>
              (\<forall>c \<in> set names. copied_below F s d (r @ [c]) X')"
  using inv names
proof (induction names arbitrary: X)
  case Nil
  then show ?case by (simp add: kept_refl)
next
  case (Cons c names)
  let ?fn = "replicateDir_walkFn (join ''/'' s) (join ''/'' d) config"
  from st have s: "s \<noteq> []" "list_all proper_name s" and ok: "src_ok F s"
    by (simp_all add: setting_def)
  from Cons.prems(2) obtain nd where nd: "fs_get F (s @ r @ [c]) = Some nd" by auto
  have pr: "list_all proper_name (s @ r @ [c])"
    using ok nd unfolding src_ok_def by (metis option.distinct(1) prefixI)
  then have srp: "list_all proper_name (s @ r)" and cp: "proper_name c" by simp_all
  have srn: "s @ r \<noteq> []" using s by simp
  have fname: "filepath_Join (join ''/'' (s @ r)) c = join ''/'' (s @ r @ [c])"
    using Join_name [OF srn srp cp] by simp
  have pe: "path_elems (join ''/'' (s @ r @ [c])) = s @ r @ [c]"
    using path_elems_join [of "s @ r @ [c]"] pr by simp
  have xn: "fs_get X (s @ r @ [c]) = Some nd"
    using Cons.prems(1) nd unfolding mirror_inv_def by (metis prefixI)
  have ls: "os_Lstat (join ''/'' (s @ r @ [c])) X = Inr (node_info nd)"
    using xn pe join_not_Nil [of "s @ r @ [c]"] pr by (simp add: os_Lstat_def)
  have "mirror_inv F s d X \<and> fs_get F (s @ (r @ [c])) = Some nd \<and>
      (r @ [c] = [] \<longrightarrow> nd = Directory) \<and> L < n + length (s @ (r @ [c]))"
    using Cons.prems(1) nd bound by simp
  with ws obtain X1 where
    w: "walk n (join ''/'' (s @ (r @ [c]))) (node_info nd) ?fn X = Some (None, X1)" and
    i1: "mirror_inv F s d X1" and k1: "kept d X X1" and c1: "copied_below F s d (r @ [c]) X1"
    unfolding walk_spec_def by blast
  have "\<forall>c \<in> set names. fs_get F (s @ r @ [c]) \<noteq> None"
    using Cons.prems(2) by simp
  from Cons.IH [OF i1 this] obtain X' where
    wn: "walk_names n (join ''/'' (s @ r)) names ?fn X1 = Some (None, X')" and
    i2: "mirror_inv F s d X'" and k2: "kept d X1 X'" and
    c2: "\<forall>c \<in> set names. copied_below F s d (r @ [c]) X'"
    by blast
  have "walk_names n (join ''/'' (s @ r)) (c # names) ?fn X = Some (None, X')"
    using w wn by (simp add: fname ls Let_def)
  moreover have "kept d X X'" using k1 k2 by (rule kept_trans)
  moreover have "copied_below F s d (r @ [c]) X'" using c1 k2 by (rule copied_below_kept)
  ultimately show ?case using i2 c2 by auto
qed

lemma walkFn_file:
  assumes s: "s \<noteq> []" "list_all proper_name s"
    and d: "d \<noteq> []" "list_all proper_name d"
    and r: "r \<noteq> []" "list_all proper_name r"
  shows "replicateDir_walkFn (join ''/'' s) (join ''/'' d) config (join ''/'' (s @ r))
           (Some (node_info (RegularFile c m))) None X =
         replicateFile (join ''/'' (s @ r)) (join ''/'' (d @ r)) config X"
  by (simp add: replicateDir_walkFn_def Rel_join [OF s r] Join_join [OF d r])

lemma walk_spec_all:
  assumes st: "setting F s d config L"
  shows "walk_spec F s d config L n"
proof (induction n)
  case 0
  show ?case
    unfolding walk_spec_def
  proof (intro allI impI)
    fix r X nd
    assume a: "mirror_inv F s d X \<and> fs_get F (s @ r) = Some nd \<and> (r = [] \<longrightarrow> nd = Directory) \<and>
        L < 0 + length (s @ r)"
    then have "length (s @ r) \<le> L"
      using st unfolding setting_def by (metis option.distinct(1) prefixI)
    with a show "\<exists>X'. walk 0 (join ''/'' (s @ r)) (node_info nd)
                 (replicateDir_walkFn (join ''/'' s) (join ''/'' d) config) X = Some (None, X') \<and>
              mirror_inv F s d X' \<and> kept d X X' \<and> copied_below F s d r X'"
      by simp
  qed
next
  case (Suc n)
  let ?fn = "replicateDir_walkFn (join ''/'' s) (join ''/'' d) config"
  from st have s: "s \<noteq> []" "list_all proper_name s" and d: "d \<noteq> []" "list_all proper_name d"
    and nd: "\<not> prefix s d" "\<not> prefix d s" and ok: "src_ok F s"
    and cfg: "removeFirst config" "fileMode config = copyMode"
    by (simp_all add: setting_def)
  show ?case
    unfolding walk_spec_def
  proof (intro allI impI)
    fix r X node
    assume a: "mirror_inv F s d X \<and> fs_get F (s @ r) = Some node \<and>
        (r = [] \<longrightarrow> node = Directory) \<and> L < Suc n + length (s @ r)"
    then have inv: "mirror_inv F s d X" and f: "fs_get F (s @ r) = Some node"
      and root: "r = [] \<longrightarrow> node = Directory" and bound: "L < Suc n + length (s @ r)"
      by simp_all
    have srp: "list_all proper_name (s @ r)" and nl: "\<forall>t. node \<noteq> SymbolicLink t"
      using ok f unfolding src_ok_def by (metis option.distinct(1) option.inject prefixI)+
    show "\<exists>X'. walk (Suc n) (join ''/'' (s @ r)) (node_info node) ?fn X = Some (None, X') \<and>
              mirror_inv F s d X' \<and> kept d X X' \<and> copied_below F s d r X'"
    proof (cases node)
      case (RegularFile c m)
      with root have r: "r \<noteq> []" by auto
      from srp have rp: "list_all proper_name r" by simp
      from replicateFile_copy [OF s d nd ok inv r f [unfolded RegularFile] cfg]
      obtain X' where
        rf: "replicateFile (join ''/'' (s @ r)) (join ''/'' (d @ r)) config X = (None, X')" and
        i: "mirror_inv F s d X'" and k: "kept d X X'" and
        at: "fs_get X' (d @ r) = Some (RegularFile c m)"
        by blast
      have w: "walk (Suc n) (join ''/'' (s @ r)) (node_info node) ?fn X = Some (None, X')"
        unfolding RegularFile using walkFn_file [OF s d r rp, of config c m X] rf by simp
      have cb: "copied_below F s d r X'"
        unfolding copied_below_def
      proof (intro allI impI)
        fix r' c' m'
        assume p: "prefix r r' \<and> fs_get F (s @ r') = Some (RegularFile c' m')"
        have "r' = r"
        proof (rule ccontr)
          assume "r' \<noteq> r"
          with p have "strict_prefix (s @ r) (s @ r')" by (auto simp: strict_prefix_def)
          moreover have "prefix s (s @ r') \<and> fs_get F (s @ r') \<noteq> None" using p by simp
          ultimately have "fs_get F (s @ r) = Some Directory"
            using ok unfolding src_ok_def by blast
          with f RegularFile show False by simp
        qed
        with p f RegularFile at show "fs_get X' (d @ r') = Some (RegularFile c' m')" by simp
      qed
      from w i k cb show ?thesis by blast
    next
      case Directory
      let ?names = "readDirNames (join ''/'' (s @ r)) X"
      have srn: "s @ r \<noteq> []" using s by simp
      have pe: "path_elems (join ''/'' (s @ r)) = s @ r"
        using path_elems_join [OF srn srp] .
      have xs: "fs_get X (s @ r @ [c]) = fs_get F (s @ r @ [c])" for c
        using inv unfolding mirror_inv_def by (metis prefixI)
      have names: "set ?names = {c. fs_get F (s @ r @ [c]) \<noteq> None}"
        unfolding readDirNames_set pe using xs by simp
      then have nm: "\<forall>c \<in> set ?names. fs_get F (s @ r @ [c]) \<noteq> None" by simp
      have b: "L < n + length (s @ r) + 1" using bound by simp
      from walk_names_copies [OF st Suc inv nm b] obtain X' where
        wn: "walk_names n (join ''/'' (s @ r)) ?names ?fn X = Some (None, X')" and
        i: "mirror_inv F s d X'" and k: "kept d X X'" and
        c: "\<forall>c \<in> set ?names. copied_below F s d (r @ [c]) X'"
        by blast
      have w: "walk (Suc n) (join ''/'' (s @ r)) (node_info node) ?fn X = Some (None, X')"
        unfolding Directory using wn by (simp add: replicateDir_walkFn_def Let_def)
      have cb: "copied_below F s d r X'"
        unfolding copied_below_def
      proof (intro allI impI)
        fix r' c' m'
        assume p: "prefix r r' \<and> fs_get F (s @ r') = Some (RegularFile c' m')"
        with f Directory have "r' \<noteq> r" by auto
        with p obtain x zs where r': "r' = r @ x # zs"
          by (metis append_Nil2 neq_Nil_conv prefixE)
        have ex: "fs_get F (s @ r @ [x]) \<noteq> None"
        proof (cases "zs = []")
          case True with p r' show ?thesis by simp
        next
          case False
          then have "strict_prefix (s @ r @ [x]) (s @ r')"
            unfolding r' by (auto simp: strict_prefix_def)
          moreover have "prefix s (s @ r') \<and> fs_get F (s @ r') \<noteq> None" using p by simp
          ultimately have "fs_get F (s @ r @ [x]) = Some Directory"
            using ok unfolding src_ok_def by blast
          then show ?thesis by simp
        qed
        then have "x \<in> set ?names" using names by simp
        with c have "copied_below F s d (r @ [x]) X'" by blast
        moreover have "prefix (r @ [x]) r'" unfolding r' by simp
        ultimately show "fs_get X' (d @ r') = Some (RegularFile c' m')"
          using p unfolding copied_below_def by blast
      qed
      from w i k cb show ?thesis by blast
    next
      case (SymbolicLink t)
      with nl show ?thesis by simp
    qed
  qed
qed

lemma plain_tree_get:
  assumes "plain_tree fs" "fs_get fs q = Some nd" "q \<noteq> []"
  shows "list_all proper_name q \<and> (\<forall>t. nd \<noteq> SymbolicLink t) \<and>
         fs_get fs (butlast q) = Some Directory"
proof -
  from assms(2,3) have "map_of fs q = Some nd" by (simp add: fs_get_def)
  then have "(q, nd) \<in> set fs" by (rule map_of_SomeD)
  with assms(1) have "plain_entry fs (q, nd)"
    unfolding plain_tree_def list_all_iff by blast
  then have "list_all proper_name q" "\<not> is_link nd" "fs_get fs (butlast q) = Some Directory"
    by (simp_all add: plain_entry_def)
  moreover from \<open>\<not> is_link nd\<close> have "\<forall>t. nd \<noteq> SymbolicLink t" by (cases nd) auto
  ultimately show ?thesis by blast
qed

lemma plain_tree_anc:
  assumes "plain_tree fs"
  shows "fs_get fs (q @ zs) \<noteq> None \<Longrightarrow> zs \<noteq> [] \<Longrightarrow> fs_get fs q = Some Directory"
proof (induction zs rule: rev_induct)
  case Nil
  then show ?case by simp
next
  case (snoc z zs)
  from snoc.prems(1) obtain nd where "fs_get fs (q @ zs @ [z]) = Some nd" by auto
  from plain_tree_get [OF assms this] have p: "fs_get fs (q @ zs) = Some Directory"
    by (simp add: butlast_append)
  show ?case
  proof (cases "zs = []")
    case True with p show ?thesis by simp
  next
    case False
    with p snoc.IH show ?thesis by simp
  qed
qed

lemma plain_tree_strict_prefix:
  assumes "plain_tree fs" "fs_get fs q \<noteq> None" "strict_prefix q' q"
  shows "fs_get fs q' = Some Directory"
proof -
  from assms(3) obtain zs where "q = q' @ zs" "zs \<noteq> []"
    by (auto simp: strict_prefix_def prefix_def)
  with plain_tree_anc [OF assms(1), of q' zs] assms(2) show ?thesis by simp
qed

lemma mkdir_all_closed:
  assumes "\<forall>q. prefix q p \<longrightarrow> fs_get fs q = None \<or> fs_get fs q = Some Directory"
    and "\<forall>q q'. prefix q p \<and> fs_get fs q \<noteq> None \<and> prefix q' q \<longrightarrow> fs_get fs q' = Some Directory"
  shows "\<exists>fs'. mkdir_all (rev p) fs = (None, fs') \<and>
           (\<forall>q. fs_get fs' q = (if prefix q p then Some Directory else fs_get fs q))"
  using assms
proof (induction p rule: rev_induct)
  case Nil
  show ?case by simp
next
  case (snoc c p)
  show ?case
  proof (cases "fs_get fs (p @ [c])")
    case (Some nd)
    with snoc.prems(1) have dir: "fs_get fs (p @ [c]) = Some Directory" by auto
    have "fs_get fs q = Some Directory" if "prefix q (p @ [c])" for q
      using snoc.prems(2) [rule_format, of "p @ [c]" q] dir that by simp
    then show ?thesis using dir by auto
  next
    case None
    have 1: "\<forall>q. prefix q p \<longrightarrow> fs_get fs q = None \<or> fs_get fs q = Some Directory"
      using snoc.prems(1) by (simp add: prefix_snoc)
    have 2: "\<forall>q q'. prefix q p \<and> fs_get fs q \<noteq> None \<and> prefix q' q \<longrightarrow>
        fs_get fs q' = Some Directory"
    proof (intro allI impI)
      fix q q' assume a: "prefix q p \<and> fs_get fs q \<noteq> None \<and> prefix q' q"
      then have "prefix q (p @ [c])" by (simp add: prefix_snoc)
      with a snoc.prems(2) show "fs_get fs q' = Some Directory" by blast
    qed
    from snoc.IH [OF 1 2] obtain fs1 where
      m: "mkdir_all (rev p) fs = (None, fs1)" and
      o: "\<forall>q. fs_get fs1 q = (if prefix q p then Some Directory else fs_get fs q)"
      by blast
    have "mkdir_all (rev (p @ [c])) fs = (None, fs_put (p @ [c]) Directory fs1)"
      using None m by simp
    moreover have "fs_get (fs_put (p @ [c]) Directory fs1) q =
        (if prefix q (p @ [c]) then Some Directory else fs_get fs q)" for q
      using o by (auto simp: fs_get_put prefix_snoc)
    ultimately show ?thesis by blast
  qed
qed

lemma replicateTree_copies:
  assumes pt: "plain_tree fs"
    and s: "s \<noteq> []" "list_all proper_name s"
    and d: "d \<noteq> []" "list_all proper_name d"
    and nd: "\<not> prefix s d" "\<not> prefix d s"
    and sdir: "fs_get fs s = Some Directory"
    and above: "\<forall>q. strict_prefix q d \<longrightarrow> fs_get fs q = None \<or> fs_get fs q = Some Directory"
    and cfg: "removeFirst config" "fileMode config = copyMode" "dirMode config = copyMode"
    and depth: "list_all (\<lambda>(p, nd). length p \<le> n) fs"
  shows "\<exists>fs'. replicateTree n (join ''/'' s) (join ''/'' d) config fs = Some (None, fs') \<and>
           (\<forall>r c m. fs_get fs (s @ r) = Some (RegularFile c m) \<longrightarrow>
                    fs_get fs' (d @ r) = Some (RegularFile c m)) \<and>
           (\<forall>q. prefix s q \<longrightarrow> fs_get fs' q = fs_get fs q) \<and>
           (\<forall>r. fs_get fs' (d @ r) = None \<or> fs_get fs' (d @ r) = fs_get fs (s @ r))"
proof -
  let ?src = "join ''/'' s" and ?dst = "join ''/'' d"
  have pe_s: "path_elems ?src = s" and src_ne: "?src \<noteq> []"
    using s by (simp_all add: path_elems_join join_not_Nil)
  have pe_d: "path_elems ?dst = d" and dst_ne: "?dst \<noteq> []"
    using d by (simp_all add: path_elems_join join_not_Nil)
  \<comment> \<open>the destination is removed\<close>
  define Fa where "Fa = snd (os_RemoveAll ?dst fs)"
  have ra: "os_RemoveAll ?dst fs = (None, Fa)"
    using dst_ne d(1) by (simp add: os_RemoveAll_def Let_def pe_d Fa_def)
  have fa: "fs_get Fa q = (if prefix d q then None else fs_get fs q)" for q
    unfolding Fa_def using fs_get_RemoveAll [OF dst_ne, of fs q] d(1) by (simp add: pe_d)
  have nds: "\<not> prefix d q" if "prefix q s \<or> prefix s q" for q
  proof
    assume p: "prefix d q"
    from that show False
    proof
      assume "prefix q s" with p have "prefix d s" by (rule prefix_order.trans)
      with nd show False by blast
    next
      assume "prefix s q"
      then obtain r where "q = s @ r" by (auto simp: prefix_def)
      with p disjoint_trees(2) [OF nd] show False by blast
    qed
  qed
  have fa_s: "fs_get Fa q = fs_get fs q" if "prefix q s \<or> prefix s q" for q
    using nds [OF that] by (simp add: fa)
  have anc_s: "fs_get fs q = Some Directory" if "strict_prefix q s" for q
    using plain_tree_strict_prefix [OF pt _ that] sdir by simp
  \<comment> \<open>the source is a directory\<close>
  have wl: "walk_links 255 Fa [] (split_on (CHR ''/'') ?src) = Inr s"
  proof -
    have "walk_links 255 Fa [] s = Inr ([] @ s)"
    proof (rule walk_links_dirs [OF s(2)])
      show "\<forall>ys. strict_prefix ys s \<longrightarrow> fs_get Fa ([] @ ys) = Some Directory"
        using anc_s fa_s by (auto simp: strict_prefix_def)
      show "fs_get Fa ([] @ s) = Some Directory \<or> (\<exists>c m. fs_get Fa ([] @ s) = Some (RegularFile c m))"
        using sdir fa_s [of s] by simp
    qed
    then show ?thesis
      by (simp add: split_on_join [OF s(1) proper_no_sep [OF s(2)]])
  qed
  have ev: "filepath_EvalSymlinks ?src Fa = Inr ?src"
    by (simp add: filepath_EvalSymlinks_def wl pe_s Clean_join [OF s])
  have st: "os_Stat ?src Fa = Inr (node_info Directory)"
    using sdir fa_s [of s] by (simp add: os_Stat_def fs_stat_def wl src_ne)
  \<comment> \<open>the directories above the destination are made\<close>
  have pe_dir: "path_elems (filepath_Dir ?dst) = butlast d" and dir_ne: "filepath_Dir ?dst \<noteq> []"
    using path_elems_Dir_join [OF d] by simp_all
  have sp: "strict_prefix q d" if "prefix q (butlast d)" for q
    using prefix_butlast_strict [OF that d(1)] .
  have fa_above: "fs_get Fa q = fs_get fs q" if "prefix q (butlast d)" for q
    using sp [OF that] by (auto simp: fa strict_prefix_def)
  have 1: "\<forall>q. prefix q (butlast d) \<longrightarrow> fs_get Fa q = None \<or> fs_get Fa q = Some Directory"
    using above sp fa_above by auto
  have 2: "\<forall>q q'. prefix q (butlast d) \<and> fs_get Fa q \<noteq> None \<and> prefix q' q \<longrightarrow>
      fs_get Fa q' = Some Directory"
  proof (intro allI impI)
    fix q q' assume a: "prefix q (butlast d) \<and> fs_get Fa q \<noteq> None \<and> prefix q' q"
    then have q: "fs_get fs q \<noteq> None" using fa_above [of q] by auto
    have q': "prefix q' (butlast d)" using a prefix_order.trans by blast
    show "fs_get Fa q' = Some Directory"
    proof (cases "q' = q")
      case True
      with 1 a show ?thesis by auto
    next
      case False
      with a have "strict_prefix q' q" by (simp add: strict_prefix_def)
      from plain_tree_strict_prefix [OF pt q this] fa_above [OF q'] show ?thesis by simp
    qed
  qed
  from mkdir_all_closed [OF 1 2] obtain F0 where
    mk: "mkdir_all (rev (butlast d)) Fa = (None, F0)" and
    f0: "\<forall>q. fs_get F0 q = (if prefix q (butlast d) then Some Directory else fs_get Fa q)"
    by blast
  have mk': "os_MkdirAll (filepath_Dir ?dst) Fa = (None, F0)"
    using mk dir_ne by (simp add: os_MkdirAll_def pe_dir)
  have nbd: "\<not> prefix (d @ r) (butlast d)" for r
  proof
    assume "prefix (d @ r) (butlast d)"
    then have "length (d @ r) \<le> length (butlast d)" by (rule prefix_length_le)
    with d(1) show False by (cases d rule: rev_cases) simp_all
  qed
  have f0_d: "fs_get F0 (d @ r) = None" for r
    using f0 nbd [of r] by (simp add: fa)
  have rm: "snd (os_Remove ?dst F0) = F0"
    using f0_d [of "[]"] dst_ne d(1) by (simp add: os_Remove_def Let_def pe_d)
  have prep: "replicatePrepare ?dst config Fa = (None, F0)"
    using mk' cfg(1) rm by (simp add: replicatePrepare_def Let_def)
  \<comment> \<open>the tree is as before, below and above the source\<close>
  have f0_s: "fs_get F0 q = fs_get fs q" if "prefix q s \<or> prefix s q" for q
  proof (cases "prefix q (butlast d)")
    case False
    then show ?thesis using f0 fa_s [OF that] by simp
  next
    case True
    from that have "fs_get fs q = Some Directory"
    proof
      assume "prefix q s"
      then show ?thesis using anc_s sdir by (cases "q = s") (auto simp: strict_prefix_def)
    next
      assume "prefix s q"
      with True have "prefix s (butlast d)" by (meson prefix_order.trans)
      then have "prefix s d" using sp by (auto simp: strict_prefix_def)
      with nd show ?thesis by blast
    qed
    with True f0 show ?thesis by simp
  qed
  have ok: "src_ok F0 s"
    unfolding src_ok_def
  proof (intro allI impI)
    fix q assume a: "prefix s q \<and> fs_get F0 q \<noteq> None"
    then have q: "fs_get fs q \<noteq> None" using f0_s [of q] by simp
    then obtain node where node: "fs_get fs q = Some node" by auto
    have qn: "q \<noteq> []" using a s(1) by auto
    from plain_tree_get [OF pt node qn]
    have p1: "list_all proper_name q" and p2: "\<forall>t. fs_get fs q \<noteq> Some (SymbolicLink t)"
      using node by simp_all
    have p3: "fs_get F0 q' = Some Directory" if q': "strict_prefix q' q" for q'
    proof -
      have fsq': "fs_get fs q' = Some Directory"
        using plain_tree_strict_prefix [OF pt q q'] .
      have "prefix q' s \<or> prefix s q'"
        using a q' by (metis prefix_same_cases strict_prefix_def)
      from f0_s [OF this] fsq' show ?thesis by simp
    qed
    from p1 p2 p3 show "list_all proper_name q \<and> (\<forall>t. fs_get F0 q \<noteq> Some (SymbolicLink t)) \<and>
        (\<forall>q'. strict_prefix q' q \<longrightarrow> fs_get F0 q' = Some Directory)"
      using f0_s [of q] a by simp
  qed
  have len: "length q \<le> n" if "fs_get fs q \<noteq> None" for q
  proof (cases "q = []")
    case True then show ?thesis by simp
  next
    case False
    with that obtain node where "map_of fs q = Some node" by (auto simp: fs_get_def)
    then have "(q, node) \<in> set fs" by (rule map_of_SomeD)
    with depth show ?thesis unfolding list_all_iff by auto
  qed
  have st0: "setting F0 s d config n"
    unfolding setting_def using s d nd ok cfg(1,2) len f0_s by auto
  have inv0: "mirror_inv F0 s d F0"
    unfolding mirror_inv_def
  proof (intro conjI allI impI)
    fix q assume "strict_prefix q d"
    then have "prefix q (butlast d)"
      using d(1) by (metis append_butlast_last_id prefix_snoc strict_prefix_def)
    with f0 show "fs_get F0 q = Some Directory" by simp
  next
    fix r show "fs_get F0 (d @ r) = None \<or> fs_get F0 (d @ r) = fs_get F0 (s @ r)"
      using f0_d by simp
  qed simp
  have f0s: "fs_get F0 (s @ []) = Some Directory"
    using f0_s [of s] sdir by simp
  have "mirror_inv F0 s d F0 \<and> fs_get F0 (s @ []) = Some Directory \<and>
      ([] = ([] :: string list) \<longrightarrow> Directory = Directory) \<and> n < n + length (s @ [])"
    using inv0 f0s s(1) by simp
  with walk_spec_all [OF st0, of n] obtain X' where
    w: "walk n (join ''/'' (s @ [])) (node_info Directory)
          (replicateDir_walkFn ?src ?dst config) F0 = Some (None, X')" and
    i: "mirror_inv F0 s d X'" and cb: "copied_below F0 s d [] X'"
    unfolding walk_spec_def by blast
  have ls: "os_Lstat ?src F0 = Inr (node_info Directory)"
    using f0s src_ne by (simp add: os_Lstat_def pe_s)
  have wk: "filepath_Walk n ?src (replicateDir_walkFn ?src ?dst config) F0 = Some (None, X')"
    using w by (simp add: filepath_Walk_def ls)
  have rd: "replicateDir n ?src ?dst config Fa = Some (None, X')"
    by (simp add: replicateDir_def prep cfg(3) wk)
  have rt: "replicateTree n ?src ?dst config fs = Some (None, X')"
    by (simp add: replicateTree_def ra ev st rd)
  have c1: "fs_get X' (d @ r) = Some (RegularFile c m)"
    if "fs_get fs (s @ r) = Some (RegularFile c m)" for r c m
    using cb that f0_s [of "s @ r"] unfolding copied_below_def by simp
  have c2: "fs_get X' q = fs_get fs q" if "prefix s q" for q
    using i that f0_s [of q] unfolding mirror_inv_def by simp
  have c3: "fs_get X' (d @ r) = None \<or> fs_get X' (d @ r) = fs_get fs (s @ r)" for r
  proof -
    from i have "fs_get X' (d @ r) = None \<or> fs_get X' (d @ r) = fs_get F0 (s @ r)"
      unfolding mirror_inv_def by blast
    with f0_s [of "s @ r"] show ?thesis by simp
  qed
  from rt c1 c2 c3 show ?thesis by blast
qed

section \<open>Properties of the replication engine\<close>

lemma collect_entry_no_paths: "collect_entry f [] acc = acc"
  by (cases acc) simp

lemma collect_entries_no_paths: "collect_entries in_File [] = ([], [])"
  unfolding collect_entries_def by (induction in_File) (simp_all add: collect_entry_no_paths)

lemma collect_entry_files:
  "snd (collect_entry f ps (dirs, files)) =
     (if list_ex (strings_HasPrefix (Name f)) ps \<and> \<not> IsDir (zip_FileInfo f)
      then files @ [f] else files)"
  by (induction ps) auto

lemma collect_entry_dirs:
  "set (fst (collect_entry f ps (dirs, files))) =
     (if list_ex (strings_HasPrefix (Name f)) ps
      then insert (if IsDir (zip_FileInfo f) then Name f else filepath_Dir (Name f)) (set dirs)
      else set dirs)"
  by (induction ps) auto

lemma collect_entry_distinct:
  "distinct dirs \<Longrightarrow> distinct (fst (collect_entry f ps (dirs, files)))"
  by (induction ps) auto

lemma foldl_collect_files:
  "snd (foldl (\<lambda>acc f. collect_entry f ps acc) (dirs, files) fs) =
     files @ filter (\<lambda>f. list_ex (strings_HasPrefix (Name f)) ps \<and> \<not> IsDir (zip_FileInfo f)) fs"
proof (induction fs arbitrary: dirs files)
  case Nil
  show ?case by simp
next
  case (Cons f fs)
  obtain d' f' where c: "collect_entry f ps (dirs, files) = (d', f')"
    by (cases "collect_entry f ps (dirs, files)")
  have "f' = (if list_ex (strings_HasPrefix (Name f)) ps \<and> \<not> IsDir (zip_FileInfo f)
      then files @ [f] else files)"
    using collect_entry_files [of f ps dirs files] c by simp
  then show ?case
    using Cons [of d' f'] c by simp
qed

lemma foldl_collect_dirs:
  "set (fst (foldl (\<lambda>acc f. collect_entry f ps acc) (dirs, files) fs)) =
     set dirs \<union>
     (\<lambda>f. if IsDir (zip_FileInfo f) then Name f else filepath_Dir (Name f)) `
       {f \<in> set fs. list_ex (strings_HasPrefix (Name f)) ps}"
proof (induction fs arbitrary: dirs files)
  case Nil
  show ?case by simp
next
  case (Cons f fs)
  obtain d' f' where c: "collect_entry f ps (dirs, files) = (d', f')"
    by (cases "collect_entry f ps (dirs, files)")
  have d: "set d' = (if list_ex (strings_HasPrefix (Name f)) ps
      then insert (if IsDir (zip_FileInfo f) then Name f else filepath_Dir (Name f)) (set dirs)
      else set dirs)"
    using collect_entry_dirs [of f ps dirs files] c by simp
  show ?case
    using Cons [of d' f'] c d by auto
qed

lemma foldl_collect_distinct:
  "distinct dirs \<Longrightarrow> distinct (fst (foldl (\<lambda>acc f. collect_entry f ps acc) (dirs, files) fs))"
proof (induction fs arbitrary: dirs files)
  case Nil
  then show ?case by simp
next
  case (Cons f fs)
  obtain d' f' where c: "collect_entry f ps (dirs, files) = (d', f')"
    by (cases "collect_entry f ps (dirs, files)")
  have "distinct d'"
    using collect_entry_distinct [OF Cons.prems, of f ps files] c by simp
  from Cons.IH [OF this, of f'] show ?case
    using c by simp
qed

text \<open>
  The first loop of \<open>zipReplicator.Replicate\<close> selects the entries that have one of
  the paths as a prefix of their name: the files to extract are the selected entries
  that are not directories, in the order of the archive, and the keys of \<open>dirs\<close>
  are the names of the selected directory entries and the directories of the names of
  the selected file entries, each once.
\<close>

lemma zip_selection_by_prefix:
  "snd (collect_entries in_File ps) =
     filter (\<lambda>f. list_ex (strings_HasPrefix (Name f)) ps \<and> \<not> IsDir (zip_FileInfo f)) in_File \<and>
   set (fst (collect_entries in_File ps)) =
     (\<lambda>f. if IsDir (zip_FileInfo f) then Name f else filepath_Dir (Name f)) `
       {f \<in> set in_File. list_ex (strings_HasPrefix (Name f)) ps} \<and>
   distinct (fst (collect_entries in_File ps))"
  unfolding collect_entries_def
  using foldl_collect_files [of ps "[]" "[]" in_File] foldl_collect_dirs [of ps "[]" "[]" in_File]
    foldl_collect_distinct [of "[]" ps "[]" in_File]
  by simp

text \<open>
  Claim C2, at an input where the code departs from it. The archive holds the files
  \<open>a/b/c.txt\<close>, \<open>ab/d.txt\<close> and \<open>x/y.txt\<close> and an entry for the directory
  \<open>a/empty/\<close>; the path is \<open>a\<close> and the destination \<open>out\<close> is empty. The
  entries selected are those with the prefix \<open>a\<close>, and only they are extracted. But
  the loop over \<open>dirs\<close> hands each directory to \<open>replicatePrepare\<close>, which
  makes the parent of its argument: after the loop, in either order, there are
  \<open>out\<close> and \<open>out/a\<close> only, none of the directories \<open>out/ab\<close>,
  \<open>out/a/b\<close> and \<open>out/a/empty\<close>. The first two are made when their files are
  extracted; \<open>out/a/empty\<close> is never made.
\<close>

theorem zip_directories_not_created:
  "collect_entries example_archive [''a''] =
     ([''ab'', ''a/empty/'', ''a/b''], [example_archive ! 0, example_archive ! 2]) \<and>
   prepare_dirs ''out'' example_config [''ab'', ''a/empty/'', ''a/b''] [] =
     (None, [([''out''], Directory), ([''out'', ''a''], Directory)]) \<and>
   prepare_dirs ''out'' example_config [''a/b'', ''a/empty/'', ''ab''] [] =
     (None, [([''out''], Directory), ([''out'', ''a''], Directory)]) \<and>
   zipReplicator_Replicate (\<lambda>z. Inr example_archive) [] ''sdk'' ''out'' example_config [] =
     (None,
      [([''out''], Directory), ([''out'', ''a''], Directory),
       ([''out'', ''a'', ''b''], Directory),
       ([''out'', ''a'', ''b'', ''c.txt''], RegularFile ''hello'' 420),
       ([''out'', ''ab''], Directory),
       ([''out'', ''ab'', ''d.txt''], RegularFile ''d'' 420)])"
  by code_simp

text \<open>
  Claim C3, at inputs where the code departs from it. The destination holds
  \<open>out/a/old.txt\<close> of an earlier replication. Replicating an archive that holds
  \<open>a/new.txt\<close> only, with the options of the default configuration, leaves
  \<open>old.txt\<close> in place, while replicating the file system tree \<open>src\<close> with the
  same path removes it. And with an archive of the two directory entries \<open>a/\<close> and
  \<open>a/b/\<close>, the same call made twice ends with \<open>out\<close> alone or with
  \<open>out/a\<close> as well, depending on the order in which \<open>range\<close> runs over the map.
\<close>

theorem zip_stale_file_survives:
  "replicate' (\<lambda>z. Inr example_new_archive) [] 5 ''src'' ''out''
     [replicatePaths [''a''], replicateFromZip ''sdk.zip''] example_stale =
     Some (None, example_stale @ [([''out'', ''a'', ''new.txt''], RegularFile ''new'' 420)]) \<and>
   replicate' (\<lambda>z. Inr example_new_archive) [] 5 ''src'' ''out''
     [replicatePaths [''a'']] example_stale =
     Some (None,
       [([''out''], Directory), ([''src''], Directory), ([''src'', ''a''], Directory),
        ([''src'', ''a'', ''new.txt''], RegularFile ''new'' 420),
        ([''out'', ''a''], Directory),
        ([''out'', ''a'', ''new.txt''], RegularFile ''new'' 420)]) \<and>
   zipReplicator_Replicate (\<lambda>z. Inr example_dirs_archive) [] ''sdk'' ''out'' example_config [] =
     (None, [([''out''], Directory)]) \<and>
   zipReplicator_Replicate (\<lambda>z. Inr example_dirs_archive) [1] ''sdk'' ''out'' example_config
     [([''out''], Directory)] =
     (None, [([''out''], Directory), ([''out'', ''a''], Directory)])"
  by code_simp

text \<open>
  Claim C10. With no paths, no entry of an archive is selected, and
  \<open>zipReplicator.Replicate\<close> leaves the file system as it is: it returns no error
  when the archive can be opened, and the error of opening it otherwise. So does
  \<open>replicate\<close> with an archive as its only option. Without an archive and without
  paths, \<open>replicate\<close> is \<open>replicateTree\<close> on the source and the destination, and
  it replicates the whole source tree: for a directory \<open>s\<close> of a plain tree and a
  destination \<open>d\<close> beside it, with no file in the place of a directory above the
  destination and a bound on the walk that is at least the depth of the tree, it
  returns no error, every file below the source is at the same place below the
  destination with its contents and mode, and nothing else is below the destination
  but the directories of these files.
\<close>

theorem zip_without_filters_selects_nothing:
  "collect_entries in_File [] = ([], []) \<and>
   (paths config = [] \<and> zip_OpenReader (zip' config) = Inr in_File \<longrightarrow>
      zipReplicator_Replicate zip_OpenReader choices src dst config fs = (None, fs)) \<and>
   (paths config = [] \<and> zip_OpenReader (zip' config) = Inl err \<longrightarrow>
      zipReplicator_Replicate zip_OpenReader choices src dst config fs = (Some err, fs)) \<and>
   (z \<noteq> [] \<and> zip_OpenReader z = Inr in_File \<longrightarrow>
      replicate' zip_OpenReader choices n src dst [replicateFromZip z] fs = Some (None, fs)) \<and>
   replicate' zip_OpenReader choices n src dst [] fs =
     replicateTree n src dst
       \<lparr>removeFirst = True, fileMode = copyMode, dirMode = copyMode, paths = [], zip' = []\<rparr> fs \<and>
   (plain_tree fs \<and> s \<noteq> [] \<and> list_all proper_name s \<and> d \<noteq> [] \<and> list_all proper_name d \<and>
    \<not> prefix s d \<and> \<not> prefix d s \<and> fs_get fs s = Some Directory \<and>
    (\<forall>q c m. strict_prefix q d \<longrightarrow> fs_get fs q \<noteq> Some (RegularFile c m)) \<and>
    list_all (\<lambda>(p, nd). length p \<le> n) fs \<longrightarrow>
      (\<exists>fs'. replicate' zip_OpenReader choices n (join ''/'' s) (join ''/'' d) [] fs =
                Some (None, fs') \<and>
             (\<forall>r c m. fs_get fs (s @ r) = Some (RegularFile c m) \<longrightarrow>
                      fs_get fs' (d @ r) = Some (RegularFile c m)) \<and>
             (\<forall>q. prefix s q \<longrightarrow> fs_get fs' q = fs_get fs q) \<and>
             (\<forall>r. fs_get fs' (d @ r) = None \<or> fs_get fs' (d @ r) = fs_get fs (s @ r))))"
proof (intro conjI impI)
  show c: "collect_entries in_File [] = ([], [])"
    by (rule collect_entries_no_paths)
  have r: "range_order choices ([] :: string list) = []"
    by (cases choices) simp_all
  show "zipReplicator_Replicate zip_OpenReader choices src dst config fs = (None, fs)"
    if "paths config = [] \<and> zip_OpenReader (zip' config) = Inr in_File"
    using that c r by (simp add: zipReplicator_Replicate_def)
  show "zipReplicator_Replicate zip_OpenReader choices src dst config fs = (Some err, fs)"
    if "paths config = [] \<and> zip_OpenReader (zip' config) = Inl err"
    using that by (simp add: zipReplicator_Replicate_def)
  show "replicate' zip_OpenReader choices n src dst [replicateFromZip z] fs = Some (None, fs)"
    if "z \<noteq> [] \<and> zip_OpenReader z = Inr in_File"
    using that c r by (simp add: replicate'_def zipReplicator_Replicate_def)
  show t: "replicate' zip_OpenReader choices n src dst [] fs =
     replicateTree n src dst
       \<lparr>removeFirst = True, fileMode = copyMode, dirMode = copyMode, paths = [], zip' = []\<rparr> fs"
    for src dst
    by (simp add: replicate'_def filesystemReplicator_Replicate_def)
  show "\<exists>fs'. replicate' zip_OpenReader choices n (join ''/'' s) (join ''/'' d) [] fs =
                Some (None, fs') \<and>
             (\<forall>r c m. fs_get fs (s @ r) = Some (RegularFile c m) \<longrightarrow>
                      fs_get fs' (d @ r) = Some (RegularFile c m)) \<and>
             (\<forall>q. prefix s q \<longrightarrow> fs_get fs' q = fs_get fs q) \<and>
             (\<forall>r. fs_get fs' (d @ r) = None \<or> fs_get fs' (d @ r) = fs_get fs (s @ r))"
    if h: "plain_tree fs \<and> s \<noteq> [] \<and> list_all proper_name s \<and> d \<noteq> [] \<and>
      list_all proper_name d \<and> \<not> prefix s d \<and> \<not> prefix d s \<and> fs_get fs s = Some Directory \<and>
      (\<forall>q c m. strict_prefix q d \<longrightarrow> fs_get fs q \<noteq> Some (RegularFile c m)) \<and>
      list_all (\<lambda>(p, nd). length p \<le> n) fs"
  proof -
    from h have pt: "plain_tree fs" by simp
    have above: "\<forall>q. strict_prefix q d \<longrightarrow> fs_get fs q = None \<or> fs_get fs q = Some Directory"
    proof (intro allI impI)
      fix q assume q: "strict_prefix q d"
      show "fs_get fs q = None \<or> fs_get fs q = Some Directory"
      proof (cases "fs_get fs q")
        case None then show ?thesis by simp
      next
        case (Some node)
        show ?thesis
        proof (cases "q = []")
          case True then show ?thesis by simp
        next
          case False
          from plain_tree_get [OF pt Some False] have "\<forall>t. node \<noteq> SymbolicLink t" by simp
          moreover from h q Some have "\<forall>c m. node \<noteq> RegularFile c m" by auto
          ultimately have "node = Directory" by (cases node) auto
          with Some show ?thesis by simp
        qed
      qed
    qed
    have "\<exists>fs'. replicateTree n (join ''/'' s) (join ''/'' d)
        \<lparr>removeFirst = True, fileMode = copyMode, dirMode = copyMode, paths = [], zip' = []\<rparr> fs =
          Some (None, fs') \<and>
        (\<forall>r c m. fs_get fs (s @ r) = Some (RegularFile c m) \<longrightarrow>
                 fs_get fs' (d @ r) = Some (RegularFile c m)) \<and>
        (\<forall>q. prefix s q \<longrightarrow> fs_get fs' q = fs_get fs q) \<and>
        (\<forall>r. fs_get fs' (d @ r) = None \<or> fs_get fs' (d @ r) = fs_get fs (s @ r))"
      by (rule replicateTree_copies [OF pt _ _ _ _ _ _ _ above]) (use h in simp_all)
    then show ?thesis unfolding t .
  qed
qed

theorem zip_without_filters_selects_nothing_witness:
  "zipReplicator_Replicate (\<lambda>z. Inr example_archive) [1] ''sdk'' ''out''
     (example_config\<lparr>paths := []\<rparr>) example_stale = (None, example_stale) \<and>
   zipReplicator_Replicate (\<lambda>z. Inl ENOENT) [1] ''sdk'' ''out''
     (example_config\<lparr>paths := []\<rparr>) example_stale = (Some ENOENT, example_stale) \<and>
   replicate' (\<lambda>z. Inr example_archive) [] 3 ''sdk'' ''out'' [replicateFromZip ''sdk.zip'']
     example_stale = Some (None, example_stale) \<and>
   (\<exists>fs'. replicate' (\<lambda>z. Inr example_archive) [] 3 ''src'' ''out'' [] example_stale =
            Some (None, fs') \<and>
          fs_get fs' [''out'', ''a'', ''new.txt''] = Some (RegularFile ''new'' 420) \<and>
          fs_get fs' [''out'', ''a'', ''old.txt''] = None)"
proof -
  let ?cfg = "example_config\<lparr>paths := []\<rparr>"
  have 1: "paths ?cfg = [] \<and> (\<lambda>z. Inr example_archive) (zip' ?cfg) = Inr example_archive"
    by simp
  have 2: "paths ?cfg = [] \<and> (\<lambda>z. Inl ENOENT :: error + zip_File list) (zip' ?cfg) = Inl ENOENT"
    by simp
  have 3: "''sdk.zip'' \<noteq> [] \<and> (\<lambda>z. Inr example_archive) ''sdk.zip'' = Inr example_archive"
    by simp
  have pt: "plain_tree example_stale"
    by code_simp
  have dp: "list_all (\<lambda>(p, nd). length p \<le> 3) example_stale"
    by code_simp
  have sd: "fs_get example_stale [''src''] = Some Directory"
    by code_simp
  have pn: "list_all proper_name [''src'']" "list_all proper_name [''out'']"
    by code_simp+
  have ab: "\<forall>q c m. strict_prefix q [''out''] \<longrightarrow> fs_get example_stale q \<noteq> Some (RegularFile c m)"
  proof (intro allI impI)
    fix q :: "string list" and c m
    assume "strict_prefix q [''out'']"
    then have "q = []"
      by (cases q) (simp_all add: strict_prefix_def)
    then show "fs_get example_stale q \<noteq> Some (RegularFile c m)"
      by (simp add: fs_get_Nil)
  qed
  have 4: "plain_tree example_stale \<and> [''src''] \<noteq> [] \<and> list_all proper_name [''src''] \<and>
      [''out''] \<noteq> [] \<and> list_all proper_name [''out''] \<and>
      \<not> prefix [''src''] [''out''] \<and> \<not> prefix [''out''] [''src''] \<and>
      fs_get example_stale [''src''] = Some Directory \<and>
      (\<forall>q c m. strict_prefix q [''out''] \<longrightarrow> fs_get example_stale q \<noteq> Some (RegularFile c m)) \<and>
      list_all (\<lambda>(p, nd). length p \<le> 3) example_stale"
    using pt dp sd pn ab by simp
  note t = zip_without_filters_selects_nothing
    [where zip_OpenReader = "\<lambda>z. Inr example_archive" and in_File = example_archive
       and config = ?cfg and z = "''sdk.zip''" and err = ENOENT and n = 3
       and choices = "[1]" and src = "''sdk''" and dst = "''out''" and fs = example_stale
       and s = "[''src'']" and d = "[''out'']"]
  note t2 = zip_without_filters_selects_nothing
    [where zip_OpenReader = "\<lambda>z. Inl ENOENT" and err = ENOENT and in_File = example_archive
       and config = ?cfg and z = "''sdk.zip''" and n = 3
       and choices = "[1]" and src = "''sdk''" and dst = "''out''" and fs = example_stale
       and s = "[''src'']" and d = "[''out'']"]
  note t3 = zip_without_filters_selects_nothing
    [where zip_OpenReader = "\<lambda>z. Inr example_archive" and in_File = example_archive
       and z = "''sdk.zip''" and choices = "[]" and n = 3 and err = ENOENT
       and config = example_config
       and src = "''sdk''" and dst = "''out''" and fs = example_stale
       and s = "[''src'']" and d = "[''out'']"]
  from t 1 have a: "zipReplicator_Replicate (\<lambda>z. Inr example_archive) [1] ''sdk'' ''out''
     ?cfg example_stale = (None, example_stale)"
    by blast
  from t2 2 have b: "zipReplicator_Replicate (\<lambda>z. Inl ENOENT) [1] ''sdk'' ''out''
     ?cfg example_stale = (Some ENOENT, example_stale)"
    by blast
  from t3 3 have c: "replicate' (\<lambda>z. Inr example_archive) [] 3 ''sdk'' ''out''
     [replicateFromZip ''sdk.zip''] example_stale = Some (None, example_stale)"
    by blast
  from t3 4 obtain fs' where
    r: "replicate' (\<lambda>z. Inr example_archive) [] 3 (join ''/'' [''src'']) (join ''/'' [''out'']) []
          example_stale = Some (None, fs')" and
    f: "\<forall>r c m. fs_get example_stale ([''src''] @ r) = Some (RegularFile c m) \<longrightarrow>
                 fs_get fs' ([''out''] @ r) = Some (RegularFile c m)" and
    o: "\<forall>r. fs_get fs' ([''out''] @ r) = None \<or>
            fs_get fs' ([''out''] @ r) = fs_get example_stale ([''src''] @ r)"
    by blast
  have n: "fs_get example_stale ([''src''] @ [''a'', ''new.txt'']) = Some (RegularFile ''new'' 420)"
    by code_simp
  have m: "fs_get example_stale ([''src''] @ [''a'', ''old.txt'']) = None"
    by code_simp
  from f n have d1: "fs_get fs' [''out'', ''a'', ''new.txt''] = Some (RegularFile ''new'' 420)"
    by force
  from o [rule_format, of "[''a'', ''old.txt'']"] m
  have d2: "fs_get fs' [''out'', ''a'', ''old.txt''] = None"
    by simp
  from r d1 d2 have e: "\<exists>fs'. replicate' (\<lambda>z. Inr example_archive) [] 3 ''src'' ''out'' [] example_stale =
            Some (None, fs') \<and>
          fs_get fs' [''out'', ''a'', ''new.txt''] = Some (RegularFile ''new'' 420) \<and>
          fs_get fs' [''out'', ''a'', ''old.txt''] = None"
    by auto
  from a b c e show ?thesis by blast
qed

end
